theory Spec2Isabelle
  imports Main "HOL-Library.Word"
begin

unbundle bit_operations_syntax

section \<open>Text, bytes and exceptions\<close>

text \<open>
  A Python \<open>str\<close> is a sequence of Unicode code points, so text is a list of natural
  numbers (\<open>ord\<close> of each character); the control pictures at U+24xx do not fit an
  8-bit \<open>char\<close>. A Python \<open>bytes\<close> object is a list of 8-bit words. The names of
  end-of-line modes, filters and encodings are plain ASCII and stay \<open>string\<close>s.
\<close>

type_synonym str = "nat list"
type_synonym byte = "8 word"

datatype exn =
    SerialException
  | KeyError string
  | LookupError string
  | AttributeError
  | UnicodeDecodeError
  | UnicodeEncodeError
  | KeyboardInterrupt
  | OtherException string

section \<open>Transformations (miniterm.py, lines 238 to 366)\<close>

text \<open>
  The transformation classes. An instance carries no state of its own beyond the two
  fixed colour strings of \<open>Colorize\<close>, which \<open>__init__\<close> sets and nothing changes,
  so an instance is represented by its class.
\<close>

datatype transform =
  Transform | CRLF | CR | LF | NoTerminal | NoControls | Printable | Colorize | DebugIO

text \<open>What \<open>DebugIO\<close> writes to \<open>sys.stderr\<close>: the direction and the text shown.\<close>

datatype debug_entry = RX str | TX str

text \<open>\<open>str.replace(old, new)\<close> for a one-character \<open>old\<close>.\<close>

definition str_replace :: "nat \<Rightarrow> str \<Rightarrow> str \<Rightarrow> str" where
  "str_replace old new txt = concat (map (\<lambda>c. if c = old then new else [c]) txt)"

text \<open>\<open>str.translate(table)\<close> for a table from code points to code points.\<close>

definition translate :: "(nat \<rightharpoonup> nat) \<Rightarrow> str \<Rightarrow> str" where
  "translate table txt = map (\<lambda>c. case table c of Some v \<Rightarrow> v | None \<Rightarrow> c) txt"

text \<open>
  \<open>NoTerminal.REPLACEMENT_MAP\<close>: the generator over \<open>range(32)\<close> without
  \<open>'\r\n\b\t'\<close>, then \<open>update\<close> with DEL and CSI.
\<close>

definition NoTerminal_REPLACEMENT_MAP :: "nat \<rightharpoonup> nat" where
  "NoTerminal_REPLACEMENT_MAP =
     map_of [(x, 0x2400 + x). x \<leftarrow> [0..<32], x \<notin> set [13, 10, 8, 9]]
       ++ map_of [(0x7F, 0x2421), (0x9B, 0x2425)]"

definition NoControls_REPLACEMENT_MAP :: "nat \<rightharpoonup> nat" where
  "NoControls_REPLACEMENT_MAP =
     map_of [(x, 0x2400 + x). x \<leftarrow> [0..<32]]
       ++ map_of [(0x20, 0x2423), (0x7F, 0x2421), (0x9B, 0x2425)]"

text \<open>\<open>'{:d}'.format(n)\<close> as the list of its decimal digits.\<close>

fun decimal_digits :: "nat \<Rightarrow> nat list" where
  "decimal_digits n = (if n < 10 then [n] else decimal_digits (n div 10) @ [n mod 10])"

declare decimal_digits.simps [simp del]

definition Printable_char :: "nat \<Rightarrow> str" where
  "Printable_char c =
     (if (0x20 \<le> c \<and> c < 0x7F) \<or> c \<in> set [13, 10, 8, 9] then [c]
      else if c < 0x20 then [0x2400 + c]
      else map (\<lambda>d. 0x2080 + d) (decimal_digits c) @ [0x20])"

definition input_color :: str where
  "input_color = [0x1B, 0x5B, 0x33, 0x37, 0x6D]"

definition echo_color :: str where
  "echo_color = [0x1B, 0x5B, 0x33, 0x31, 0x6D]"

text \<open>
  The three hooks. A class that does not override a hook inherits it: \<open>CRLF\<close>,
  \<open>LF\<close> and \<open>DebugIO\<close> from \<open>Transform\<close>, \<open>NoControls\<close> from
  \<open>NoTerminal\<close> (with its own table), and \<open>echo = rx\<close> in \<open>NoTerminal\<close> and
  \<open>Printable\<close>.
\<close>

fun rx :: "transform \<Rightarrow> str \<Rightarrow> str" where
  "rx CR txt = str_replace 13 [10] txt"
| "rx NoTerminal txt = translate NoTerminal_REPLACEMENT_MAP txt"
| "rx NoControls txt = translate NoControls_REPLACEMENT_MAP txt"
| "rx Printable txt = concat (map Printable_char txt)"
| "rx Colorize txt = input_color @ txt"
| "rx _ txt = txt"

fun tx :: "transform \<Rightarrow> str \<Rightarrow> str" where
  "tx CRLF txt = str_replace 10 [13, 10] txt"
| "tx CR txt = str_replace 10 [13] txt"
| "tx _ txt = txt"

fun echo :: "transform \<Rightarrow> str \<Rightarrow> str" where
  "echo NoTerminal txt = rx NoTerminal txt"
| "echo NoControls txt = rx NoControls txt"
| "echo Printable txt = rx Printable txt"
| "echo Colorize txt = echo_color @ txt"
| "echo _ txt = txt"

text \<open>The lines \<open>DebugIO\<close> adds to \<open>sys.stderr\<close>; the other classes write none.\<close>

fun rx_stderr :: "transform \<Rightarrow> str \<Rightarrow> debug_entry list" where
  "rx_stderr DebugIO txt = [RX txt]"
| "rx_stderr _ txt = []"

fun tx_stderr :: "transform \<Rightarrow> str \<Rightarrow> debug_entry list" where
  "tx_stderr DebugIO txt = [TX txt]"
| "tx_stderr _ txt = []"

definition EOL_TRANSFORMATIONS :: "string \<rightharpoonup> transform" where
  "EOL_TRANSFORMATIONS = map_of [(''crlf'', CRLF), (''cr'', CR), (''lf'', LF)]"

definition TRANSFORMATIONS :: "string \<rightharpoonup> transform" where
  "TRANSFORMATIONS = map_of
     [(''direct'', Transform), (''default'', NoTerminal), (''nocontrol'', NoControls),
      (''printable'', Printable), (''colorize'', Colorize), (''debug'', DebugIO)]"

section \<open>The UTF-8 codec of the Python library\<close>

text \<open>
  \<open>set_rx_encoding\<close> and \<open>set_tx_encoding\<close> take their incremental decoder and
  encoder from Python's \<open>codecs\<close> registry. The registry is a parameter of the
  model; the UTF-8 entry, which \<open>run_terminal\<close> selects, is written out below.
\<close>

datatype errors = Strict | Replace | Ignore

text \<open>
  A codec as the session uses it: \<open>buffer_decode errors data\<close> is
  \<open>_buffer_decode(data, errors, final=False)\<close>, the decoded text and the number of
  bytes consumed; \<open>codec_encode errors txt\<close> is the encoder's \<open>encode(txt)\<close>.
\<close>

record codec =
  buffer_decode :: "errors \<Rightarrow> byte list \<Rightarrow> exn + (str \<times> nat)"
  codec_encode :: "errors \<Rightarrow> str \<Rightarrow> exn + byte list"

definition is_continuation :: "byte \<Rightarrow> bool" where
  "is_continuation c = (0x80 \<le> c \<and> c \<le> 0xBF)"

definition cp2 :: "byte \<Rightarrow> byte \<Rightarrow> nat" where
  "cp2 b c = unat (b AND 0x1F) * 64 + unat (c AND 0x3F)"

definition cp3 :: "byte \<Rightarrow> byte \<Rightarrow> byte \<Rightarrow> nat" where
  "cp3 b c d = unat (b AND 0x0F) * 4096 + unat (c AND 0x3F) * 64 + unat (d AND 0x3F)"

definition cp4 :: "byte \<Rightarrow> byte \<Rightarrow> byte \<Rightarrow> byte \<Rightarrow> nat" where
  "cp4 b c d e =
     unat (b AND 0x07) * 262144 + unat (c AND 0x3F) * 4096 + unat (d AND 0x3F) * 64
       + unat (e AND 0x3F)"

text \<open>
  One step of the decoder at lead byte \<open>b\<close> followed by \<open>bs\<close>: \<open>Emit item k\<close>
  produces a code point (\<open>Some\<close>) or a malformed-sequence mark (\<open>None\<close>) and
  consumes \<open>b\<close> and \<open>k\<close> further bytes; \<open>Incomplete\<close> means the input ends
  inside a sequence that may still become valid, so the decoder stops and keeps the
  rest for the next call.
\<close>

datatype utf8_step = Emit "nat option" nat | Incomplete

text \<open>
  Modelled from the spec: the incremental decoder "must correctly buffer a split
  multi-byte sequence across reads" and a malformed sequence is "recovered locally
  using a replacement-character policy". The decoder is not part of miniterm.py; the
  case analysis follows CPython's UTF-8 decoder: ASCII, the invalid lead bytes 80 to C1
  and F5 to FF, two-, three- and four-byte sequences with the restricted second bytes
  after E0, ED, F0 and F4, and an error that covers the longest valid prefix.
\<close>

definition utf8_decode_step :: "byte \<Rightarrow> byte list \<Rightarrow> utf8_step" where
  "utf8_decode_step b bs =
     (if b < 0x80 then Emit (Some (unat b)) 0
      else if b < 0xC2 then Emit None 0
      else if b < 0xE0 then
        (case bs of
           [] \<Rightarrow> Incomplete
         | c # _ \<Rightarrow>
             if \<not> is_continuation c then Emit None 0 else Emit (Some (cp2 b c)) 1)
      else if b < 0xF0 then
        (case bs of
           [] \<Rightarrow> Incomplete
         | c # cs \<Rightarrow>
             if \<not> is_continuation c \<or> (if c < 0xA0 then b = 0xE0 else b = 0xED) then
               (if b = 0xED \<and> cs = [] \<and> 0xA0 \<le> c \<and> c \<le> 0xBF then Incomplete
                else Emit None 0)
             else
               (case cs of
                  [] \<Rightarrow> Incomplete
                | d # _ \<Rightarrow>
                    if \<not> is_continuation d then Emit None 1
                    else Emit (Some (cp3 b c d)) 2))
      else if b < 0xF5 then
        (case bs of
           [] \<Rightarrow> Incomplete
         | c # cs \<Rightarrow>
             if \<not> is_continuation c \<or> (if c < 0x90 then b = 0xF0 else b = 0xF4) then
               Emit None 0
             else
               (case cs of
                  [] \<Rightarrow> Incomplete
                | d # ds \<Rightarrow>
                    if \<not> is_continuation d then Emit None 1
                    else
                      (case ds of
                         [] \<Rightarrow> Incomplete
                       | e # _ \<Rightarrow>
                           if \<not> is_continuation e then Emit None 2
                           else Emit (Some (cp4 b c d e)) 3)))
      else Emit None 0)"

text \<open>
  Modelled from the spec: the decoder's scan over a chunk, which the repository takes
  from Python's library. It gives the items decoded and the bytes left unconsumed.
\<close>

function utf8_scan :: "byte list \<Rightarrow> nat option list \<times> byte list" where
  "utf8_scan [] = ([], [])"
| "utf8_scan (b # bs) =
     (case utf8_decode_step b bs of
        Incomplete \<Rightarrow> ([], b # bs)
      | Emit item k \<Rightarrow>
          (case utf8_scan (drop k bs) of (items, rest) \<Rightarrow> (item # items, rest)))"
  by pat_completeness auto
termination
  by (relation "measure length") auto

text \<open>
  Modelled from the spec: the error policies of the library's codec, which say what
  becomes of the malformed-sequence marks; \<open>replace\<close> is the "lossy-replacement error
  policy" and writes U+FFFD for each.
\<close>

definition decode_errors :: "errors \<Rightarrow> nat option list \<Rightarrow> exn + str" where
  "decode_errors errs items =
     (case errs of
        Strict \<Rightarrow> if None \<in> set items then Inl UnicodeDecodeError else Inr (map the items)
      | Replace \<Rightarrow> Inr (map (\<lambda>i. case i of None \<Rightarrow> 0xFFFD | Some c \<Rightarrow> c) items)
      | Ignore \<Rightarrow> Inr (concat (map (\<lambda>i. case i of None \<Rightarrow> [] | Some c \<Rightarrow> [c]) items)))"

definition utf_8_decode :: "errors \<Rightarrow> byte list \<Rightarrow> exn + (str \<times> nat)" where
  "utf_8_decode errs data =
     (case utf8_scan data of
        (items, rest) \<Rightarrow>
          (case decode_errors errs items of
             Inl e \<Rightarrow> Inl e
           | Inr txt \<Rightarrow> Inr (txt, length data - length rest)))"

text \<open>
  Modelled from the spec: the library's UTF-8 encoder, one to four bytes per code
  point; a lone surrogate (D800 to DFFF) cannot be encoded and goes to the error
  handler, which writes \<open>?\<close> under \<open>replace\<close>.
\<close>

definition utf8_encode_char :: "nat \<Rightarrow> byte list option" where
  "utf8_encode_char c =
     (if c < 0x80 then Some [of_nat c]
      else if c < 0x800 then Some [of_nat (0xC0 + c div 64), of_nat (0x80 + c mod 64)]
      else if 0xD800 \<le> c \<and> c \<le> 0xDFFF then None
      else if c < 0x10000 then
        Some [of_nat (0xE0 + c div 4096), of_nat (0x80 + c div 64 mod 64),
              of_nat (0x80 + c mod 64)]
      else
        Some [of_nat (0xF0 + c div 262144), of_nat (0x80 + c div 4096 mod 64),
              of_nat (0x80 + c div 64 mod 64), of_nat (0x80 + c mod 64)])"

fun utf_8_encode :: "errors \<Rightarrow> str \<Rightarrow> exn + byte list" where
  "utf_8_encode errs [] = Inr []"
| "utf_8_encode errs (c # cs) =
     (case utf8_encode_char c of
        Some bs \<Rightarrow> (case utf_8_encode errs cs of Inl e \<Rightarrow> Inl e | Inr r \<Rightarrow> Inr (bs @ r))
      | None \<Rightarrow>
          (case errs of
             Strict \<Rightarrow> Inl UnicodeEncodeError
           | Replace \<Rightarrow>
               (case utf_8_encode errs cs of Inl e \<Rightarrow> Inl e | Inr r \<Rightarrow> Inr (0x3F # r))
           | Ignore \<Rightarrow> utf_8_encode errs cs))"

definition utf_8 :: codec where
  "utf_8 = \<lparr>buffer_decode = utf_8_decode, codec_encode = utf_8_encode\<rparr>"

text \<open>
  Modelled from the spec: the "accumulated partial multi-byte sequence" of the
  incremental decoder, Python's \<open>codecs.BufferedIncrementalDecoder\<close>, which is not
  part of miniterm.py: the bytes not yet decoded are kept between
  calls. \<open>decode\<close> prepends them to the input, decodes, and keeps what was not consumed.
  When the codec raises, the buffer is left as it was.
\<close>

record incremental_decoder =
  dec_codec :: codec
  dec_errors :: errors
  buffer :: "byte list"

definition decode :: "incremental_decoder \<Rightarrow> byte list \<Rightarrow> exn + (str \<times> incremental_decoder)" where
  "decode d input =
     (let data = buffer d @ input in
      case buffer_decode (dec_codec d) (dec_errors d) data of
        Inl e \<Rightarrow> Inl e
      | Inr (result, consumed) \<Rightarrow> Inr (result, d\<lparr>buffer := drop consumed data\<rparr>))"

record incremental_encoder =
  enc_codec :: codec
  enc_errors :: errors

definition encode :: "incremental_encoder \<Rightarrow> str \<Rightarrow> exn + byte list" where
  "encode e txt = codec_encode (enc_codec e) (enc_errors e) txt"

text \<open>
  \<open>codecs.getincrementaldecoder(encoding)(errors)\<close> and its encoder twin over a
  registry of codecs; an unknown name raises \<open>LookupError\<close>.
\<close>

definition getincrementaldecoder ::
  "(string \<rightharpoonup> codec) \<Rightarrow> string \<Rightarrow> errors \<Rightarrow> exn + incremental_decoder" where
  "getincrementaldecoder registry encoding errs =
     (case registry encoding of
        None \<Rightarrow> Inl (LookupError encoding)
      | Some c \<Rightarrow> Inr \<lparr>dec_codec = c, dec_errors = errs, buffer = []\<rparr>)"

definition getincrementalencoder ::
  "(string \<rightharpoonup> codec) \<Rightarrow> string \<Rightarrow> errors \<Rightarrow> exn + incremental_encoder" where
  "getincrementalencoder registry encoding errs =
     (case registry encoding of
        None \<Rightarrow> Inl (LookupError encoding)
      | Some c \<Rightarrow> Inr \<lparr>enc_codec = c, enc_errors = errs\<rparr>)"

section \<open>Console and channel\<close>

text \<open>
  The console keeps what was written to it, by \<open>write\<close> (text) or \<open>write_bytes\<close>
  (bytes), and how often \<open>cancel\<close> was called. Writes to the console are taken to
  succeed.
\<close>

datatype console_item = Text str | Bytes "byte list"

record console_state =
  console_output :: "console_item list"
  cancels :: nat

definition Console_write :: "console_state \<Rightarrow> str \<Rightarrow> console_state" where
  "Console_write con txt = con\<lparr>console_output := console_output con @ [Text txt]\<rparr>"

definition Console_write_bytes :: "console_state \<Rightarrow> byte list \<Rightarrow> console_state" where
  "Console_write_bytes con byte_string =
     con\<lparr>console_output := console_output con @ [Bytes byte_string]\<rparr>"

definition Console_cancel :: "console_state \<Rightarrow> console_state" where
  "Console_cancel con = con\<lparr>cancels := Suc (cancels con)\<rparr>"

text \<open>
  The channel keeps the byte strings written to it, in order. \<open>write_fault\<close> scripts a
  transport fault: with \<open>Some k\<close> the write after \<open>k\<close> successful ones raises
  \<open>SerialException\<close>.
\<close>

record serial_state =
  written :: "byte list list"
  write_fault :: "nat option"

definition serial_write :: "serial_state \<Rightarrow> byte list \<Rightarrow> exn + serial_state" where
  "serial_write ser data =
     (if write_fault ser = Some (length (written ser)) then Inl SerialException
      else Inr (ser\<lparr>written := written ser @ [data]\<rparr>))"

text \<open>
  What a blocking call meets. While a loop is parked in \<open>serial.read\<close> or
  \<open>console.getkey\<close>, another thread may clear \<open>alive\<close> (\<open>stop()\<close>, or the other
  loop failing) or \<open>_reader_alive\<close> (\<open>_stop_reader\<close>). The call then returns data or
  a key, or raises. A loop is run against a finite script of such events; when the
  script is used up the thread stays parked in the blocking call (\<open>Blocked\<close>).
\<close>

datatype interference = Quiet | ClearAlive | ClearReaderAlive

datatype read_result = Data "byte list" | ReadRaises exn

datatype getkey_result = Key str | GetkeyRaises exn

datatype outcome = Returned | Raised exn | Blocked

section \<open>The session (class Miniterm)\<close>

text \<open>
  The fields of \<open>Miniterm\<close>, with the console, the channel and \<open>sys.stderr\<close> as part
  of the state. \<open>alive\<close> and \<open>_reader_alive\<close> start as \<open>None\<close>, which Python
  tests as false. The field \<open>self.echo\<close> is \<open>self_echo\<close>, since \<open>echo\<close> is the hook
  of a transformation.
\<close>

record miniterm =
  console :: console_state
  serial :: serial_state
  stderr :: "debug_entry list"
  self_echo :: bool
  raw :: bool
  input_encoding :: string
  output_encoding :: string
  eol :: string
  filters :: "string list"
  tx_transformations :: "transform list"
  rx_transformations :: "transform list"
  exit_character :: str
  menu_character :: str
  alive :: "bool option"
  reader_alive :: "bool option"
  rx_decoder :: "incremental_decoder option"
  tx_encoder :: "incremental_encoder option"

text \<open>\<open>[TRANSFORMATIONS[f] for f in self.filters]\<close>: the first unknown name raises.\<close>

fun lookup_filters :: "string list \<Rightarrow> exn + transform list" where
  "lookup_filters [] = Inr []"
| "lookup_filters (f # fs) =
     (case TRANSFORMATIONS f of
        None \<Rightarrow> Inl (KeyError f)
      | Some t \<Rightarrow> (case lookup_filters fs of Inl e \<Rightarrow> Inl e | Inr ts \<Rightarrow> Inr (t # ts)))"

definition update_transformations :: "miniterm \<Rightarrow> exn + miniterm" where
  "update_transformations m =
     (case EOL_TRANSFORMATIONS (eol m) of
        None \<Rightarrow> Inl (KeyError (eol m))
      | Some e \<Rightarrow>
          (case lookup_filters (filters m) of
             Inl x \<Rightarrow> Inl x
           | Inr fs \<Rightarrow>
               let transformations = [e] @ fs in
               Inr (m\<lparr>tx_transformations := transformations,
                      rx_transformations := rev transformations\<rparr>)))"

text \<open>
  \<open>Miniterm.__init__(serial_instance, echo, eol, filters)\<close>: the fields it assigns,
  and \<open>update_transformations\<close>, which it calls and which may raise.
\<close>

definition init_fields :: "serial_state \<Rightarrow> bool \<Rightarrow> string \<Rightarrow> string list \<Rightarrow> miniterm" where
  "init_fields serial_instance echo_arg eol_arg filters_arg =
     \<lparr>console = \<lparr>console_output = [], cancels = 0\<rparr>,
      serial = serial_instance,
      stderr = [],
      self_echo = echo_arg,
      raw = False,
      input_encoding = ''UTF-8'',
      output_encoding = ''UTF-8'',
      eol = eol_arg,
      filters = filters_arg,
      tx_transformations = [],
      rx_transformations = [],
      exit_character = [0x1D],
      menu_character = [0x14],
      alive = None,
      reader_alive = None,
      rx_decoder = None,
      tx_encoder = None\<rparr>"

definition Miniterm :: "serial_state \<Rightarrow> bool \<Rightarrow> string \<Rightarrow> string list \<Rightarrow> exn + miniterm" where
  "Miniterm serial_instance echo_arg eol_arg filters_arg =
     update_transformations (init_fields serial_instance echo_arg eol_arg filters_arg)"

definition start :: "miniterm \<Rightarrow> miniterm" where
  "start m = m\<lparr>alive := Some True, reader_alive := Some True\<rparr>"

definition stop :: "miniterm \<Rightarrow> miniterm" where
  "stop m = m\<lparr>alive := Some False\<rparr>"

text \<open>
  \<open>set_rx_encoding(encoding, errors='replace')\<close> and \<open>set_tx_encoding\<close>. The
  encoding name is stored before the codec is looked up, so it is stored also when
  the lookup raises; the result is the exception, if any, and the state.
\<close>

definition default_errors :: errors where
  "default_errors = Replace"

definition set_rx_encoding ::
  "(string \<rightharpoonup> codec) \<Rightarrow> miniterm \<Rightarrow> string \<Rightarrow> errors \<Rightarrow> exn option \<times> miniterm" where
  "set_rx_encoding registry m encoding errs =
     (let m1 = m\<lparr>input_encoding := encoding\<rparr> in
      case getincrementaldecoder registry encoding errs of
        Inl e \<Rightarrow> (Some e, m1)
      | Inr d \<Rightarrow> (None, m1\<lparr>rx_decoder := Some d\<rparr>))"

definition set_tx_encoding ::
  "(string \<rightharpoonup> codec) \<Rightarrow> miniterm \<Rightarrow> string \<Rightarrow> errors \<Rightarrow> exn option \<times> miniterm" where
  "set_tx_encoding registry m encoding errs =
     (let m1 = m\<lparr>output_encoding := encoding\<rparr> in
      case getincrementalencoder registry encoding errs of
        Inl e \<Rightarrow> (Some e, m1)
      | Inr enc \<Rightarrow> (None, m1\<lparr>tx_encoder := Some enc\<rparr>))"

text \<open>A flag cleared by another thread while this one is parked in a blocking call.\<close>

fun interfere :: "interference \<Rightarrow> miniterm \<Rightarrow> miniterm" where
  "interfere Quiet m = m"
| "interfere ClearAlive m = m\<lparr>alive := Some False\<rparr>"
| "interfere ClearReaderAlive m = m\<lparr>reader_alive := Some False\<rparr>"

subsection \<open>The reader loop\<close>

text \<open>
  \<open>for transformation in self.rx_transformations: text = transformation.rx(text)\<close>,
  with the lines \<open>DebugIO\<close> writes to \<open>sys.stderr\<close> on the way.
\<close>

fun rx_loop :: "transform list \<Rightarrow> str \<Rightarrow> debug_entry list \<Rightarrow> str \<times> debug_entry list" where
  "rx_loop [] txt err = (txt, err)"
| "rx_loop (t # ts) txt err = rx_loop ts (rx t txt) (err @ rx_stderr t txt)"

text \<open>
  The body of \<open>if data:\<close> in \<open>reader\<close>: raw mode writes the bytes to the console as
  they are; otherwise they are decoded, passed through the rx transformations and
  written as text. A decoder that was never set is \<open>None\<close>, and calling \<open>decode\<close> on
  it raises \<open>AttributeError\<close>.
\<close>

definition reader_data :: "miniterm \<Rightarrow> byte list \<Rightarrow> exn option \<times> miniterm" where
  "reader_data m data =
     (if raw m then (None, m\<lparr>console := Console_write_bytes (console m) data\<rparr>)
      else
        (case rx_decoder m of
           None \<Rightarrow> (Some AttributeError, m)
         | Some d \<Rightarrow>
             (case decode d data of
                Inl e \<Rightarrow> (Some e, m)
              | Inr (txt, d') \<Rightarrow>
                  (case rx_loop (rx_transformations m) txt (stderr m) of
                     (txt', err) \<Rightarrow>
                       (None, m\<lparr>rx_decoder := Some d', stderr := err,
                                 console := Console_write (console m) txt'\<rparr>)))))"

text \<open>
  \<open>while self.alive and self._reader_alive:\<close> over a script of reads. Each event is
  what happens during one \<open>self.serial.read(self.serial.in_waiting or 1)\<close>.
\<close>

fun reader_loop :: "miniterm \<Rightarrow> (interference \<times> read_result) list \<Rightarrow> outcome \<times> miniterm" where
  "reader_loop m [] =
     (if alive m = Some True \<and> reader_alive m = Some True then (Blocked, m)
      else (Returned, m))"
| "reader_loop m ((i, r) # evs) =
     (if alive m = Some True \<and> reader_alive m = Some True then
        (case r of
           ReadRaises e \<Rightarrow> (Raised e, interfere i m)
         | Data data \<Rightarrow>
             if data \<noteq> [] then
               (case reader_data (interfere i m) data of
                  (Some e, m') \<Rightarrow> (Raised e, m')
                | (None, m') \<Rightarrow> reader_loop m' evs)
             else reader_loop (interfere i m) evs)
      else (Returned, m))"

text \<open>
  \<open>reader\<close>: the loop inside \<open>try\<close>; \<open>except serial.SerialException\<close> clears
  \<open>alive\<close>, cancels the console read and raises again. Any other exception leaves the
  method as it is.
\<close>

definition reader :: "miniterm \<Rightarrow> (interference \<times> read_result) list \<Rightarrow> outcome \<times> miniterm" where
  "reader m evs =
     (case reader_loop m evs of
        (Raised SerialException, m') \<Rightarrow>
          (Raised SerialException, m'\<lparr>alive := Some False, console := Console_cancel (console m')\<rparr>)
      | (out, m') \<Rightarrow> (out, m'))"

subsection \<open>The writer loop\<close>

fun tx_loop :: "transform list \<Rightarrow> str \<Rightarrow> debug_entry list \<Rightarrow> str \<times> debug_entry list" where
  "tx_loop [] txt err = (txt, err)"
| "tx_loop (t # ts) txt err = tx_loop ts (tx t txt) (err @ tx_stderr t txt)"

fun echo_loop :: "transform list \<Rightarrow> str \<Rightarrow> str" where
  "echo_loop [] echo_text = echo_text"
| "echo_loop (t # ts) echo_text = echo_loop ts (echo t echo_text)"

text \<open>
  The \<open>else\<close> branch of \<open>writer\<close>, for a key that is neither the menu nor the exit
  character: the tx transformations, the encoder, the write to the channel, and the
  echo when \<open>self.echo\<close> is set. The branch does not read \<open>self.raw\<close>; the test is
  commented out in the source.
\<close>

definition writer_send :: "miniterm \<Rightarrow> str \<Rightarrow> exn option \<times> miniterm" where
  "writer_send m c =
     (case tx_loop (tx_transformations m) c (stderr m) of
        (txt, err) \<Rightarrow>
          let m1 = m\<lparr>stderr := err\<rparr> in
          (case tx_encoder m1 of
             None \<Rightarrow> (Some AttributeError, m1)
           | Some enc \<Rightarrow>
               (case encode enc txt of
                  Inl e \<Rightarrow> (Some e, m1)
                | Inr bs \<Rightarrow>
                    (case serial_write (serial m1) bs of
                       Inl e \<Rightarrow> (Some e, m1)
                     | Inr ser \<Rightarrow>
                         let m2 = m1\<lparr>serial := ser\<rparr> in
                         if self_echo m2 then
                           (None, m2\<lparr>console :=
                                    Console_write (console m2) (echo_loop (tx_transformations m2) c)\<rparr>)
                         else (None, m2)))))"

text \<open>
  \<open>try: c = self.console.getkey()  except KeyboardInterrupt: c = '\x03'\<close>.
\<close>

fun getkey :: "getkey_result \<Rightarrow> exn + str" where
  "getkey (Key c) = Inr c"
| "getkey (GetkeyRaises KeyboardInterrupt) = Inr [0x03]"
| "getkey (GetkeyRaises e) = Inl e"

text \<open>
  \<open>while self.alive:\<close> over a script of keys. \<open>menu_active\<close> is the local variable
  the menu branch assigns; nothing in the loop reads it. The result carries its last
  value.
\<close>

fun writer_loop ::
  "miniterm \<Rightarrow> bool \<Rightarrow> (interference \<times> getkey_result) list \<Rightarrow> outcome \<times> miniterm \<times> bool" where
  "writer_loop m menu_active [] =
     (if alive m = Some True then (Blocked, m, menu_active) else (Returned, m, menu_active))"
| "writer_loop m menu_active ((i, k) # evs) =
     (if alive m = Some True then
        (case getkey k of
           Inl e \<Rightarrow> (Raised e, interfere i m, menu_active)
         | Inr c \<Rightarrow>
             let m1 = interfere i m in
             if alive m1 \<noteq> Some True then (Returned, m1, menu_active)
             else if c = menu_character m1 then writer_loop m1 True evs
             else if c = exit_character m1 then (Returned, stop m1, menu_active)
             else
               (case writer_send m1 c of
                  (Some e, m2) \<Rightarrow> (Raised e, m2, menu_active)
                | (None, m2) \<Rightarrow> writer_loop m2 menu_active evs))
      else (Returned, m, menu_active))"

text \<open>
  \<open>writer\<close>: the loop inside \<open>try\<close>; the bare \<open>except\<close> clears \<open>alive\<close> and raises
  again, whatever the exception.
\<close>

definition writer ::
  "miniterm \<Rightarrow> (interference \<times> getkey_result) list \<Rightarrow> outcome \<times> miniterm \<times> bool" where
  "writer m evs =
     (case writer_loop m False evs of
        (Raised e, m', menu_active) \<Rightarrow> (Raised e, m'\<lparr>alive := Some False\<rparr>, menu_active)
      | (out, m', menu_active) \<Rightarrow> (out, m', menu_active))"

subsection \<open>The configuration of \<open>run_terminal\<close>\<close>

text \<open>
  \<open>run_terminal\<close> from the creation of the session to \<open>miniterm.start()\<close>: echo off,
  end-of-line mode \<open>cr\<close>, no filters, the two control keys, raw mode off, and UTF-8
  with the default error policy in both directions.
\<close>

definition run_terminal_session :: "(string \<rightharpoonup> codec) \<Rightarrow> serial_state \<Rightarrow> exn + miniterm" where
  "run_terminal_session registry serial_instance =
     (case Miniterm serial_instance False ''cr'' [] of
        Inl e \<Rightarrow> Inl e
      | Inr m \<Rightarrow>
          let m1 = m\<lparr>exit_character := [0x1D], menu_character := [0x14], raw := False\<rparr> in
          (case set_rx_encoding registry m1 ''UTF-8'' default_errors of
             (Some e, m2) \<Rightarrow> Inl e
           | (None, m2) \<Rightarrow>
               (case set_tx_encoding registry m2 ''UTF-8'' default_errors of
                  (Some e, m3) \<Rightarrow> Inl e
                | (None, m3) \<Rightarrow> Inr (start m3))))"

text \<open>
  A registry that knows UTF-8 under the name \<open>run_terminal\<close> uses, and a channel with
  nothing written yet and no fault scripted: the session the examples below run.
\<close>

definition utf8_registry :: "string \<rightharpoonup> codec" where
  "utf8_registry = [''UTF-8'' \<mapsto> utf_8]"

definition fresh_port :: serial_state where
  "fresh_port = \<lparr>written = [], write_fault = None\<rparr>"

definition terminal :: miniterm where
  "terminal = projr (run_terminal_session utf8_registry fresh_port)"

section \<open>The two threads of a session\<close>

text \<open>
  \<open>start\<close> makes \<open>reader\<close> and \<open>writer\<close> the targets of two threads
  (\<open>receiver_thread\<close>, \<open>transmitter_thread\<close>) that share the session. A thread
  stands at the test of its loop, is parked in its blocking call, or has ended, by
  returning or by raising out of its target.
\<close>

datatype reader_at = ReaderTest | ReaderRead | ReaderEnded outcome

datatype writer_at = WriterTest | WriterGetkey | WriterEnded outcome

text \<open>
  \<open>Console.cancel\<close> puts a key into the console's input, which the parked
  \<open>getkey\<close> then returns: on posix it pushes the byte 0 into the terminal input
  (\<open>TIOCSTI\<close>); on nt it posts the return key, which \<open>getkey\<close> maps from 13 to 10.
\<close>

datatype platform = Posix | Nt

definition cancel_key :: "platform \<Rightarrow> str" where
  "cancel_key p = (case p of Posix \<Rightarrow> [0x00] | Nt \<Rightarrow> [0x0A])"

text \<open>
  The session with its threads: the shared \<open>Miniterm\<close> object, where each thread
  stands, the writer's local \<open>menu_active\<close>, what the channel will still deliver to
  \<open>serial.read\<close>, and the console's input queue (keys typed and keys injected by
  \<open>cancel\<close>).
\<close>

record session =
  os_name :: platform
  shared :: miniterm
  receiver_thread :: reader_at
  transmitter_thread :: writer_at
  writer_menu_active :: bool
  channel_input :: "read_result list"
  console_input :: "getkey_result list"

text \<open>
  \<open>start()\<close>: \<open>alive\<close> and \<open>_reader_alive\<close> become true and both threads are
  started, each at the test of its loop.
\<close>

definition start_threads ::
  "platform \<Rightarrow> miniterm \<Rightarrow> read_result list \<Rightarrow> getkey_result list \<Rightarrow> session" where
  "start_threads p m reads keys =
     \<lparr>os_name = p, shared = start m, receiver_thread = ReaderTest,
      transmitter_thread = WriterTest, writer_menu_active = False,
      channel_input = reads, console_input = keys\<rparr>"

text \<open>
  An exception leaving the loop of \<open>reader\<close>: for \<open>SerialException\<close> the handler
  clears \<open>alive\<close> and calls \<open>Console.cancel()\<close>, whose key joins the console input;
  then, as for any other exception, the exception leaves \<open>reader\<close> and the thread ends.
\<close>

definition reader_raise :: "session \<Rightarrow> exn \<Rightarrow> session" where
  "reader_raise s e =
     (if e = SerialException then
        s\<lparr>shared := (shared s)\<lparr>alive := Some False,
                               console := Console_cancel (console (shared s))\<rparr>,
          console_input := console_input s @ [Key (cancel_key (os_name s))],
          receiver_thread := ReaderEnded (Raised e)\<rparr>
      else s\<lparr>receiver_thread := ReaderEnded (Raised e)\<rparr>)"

text \<open>
  One turn of the reader thread: the test of \<open>while self.alive and
  self._reader_alive\<close>, or one \<open>serial.read\<close> with the body that follows it. With
  nothing to read the thread stays parked.
\<close>

definition reader_step :: "session \<Rightarrow> session" where
  "reader_step s =
     (case receiver_thread s of
        ReaderEnded out \<Rightarrow> s
      | ReaderTest \<Rightarrow>
          if alive (shared s) = Some True \<and> reader_alive (shared s) = Some True
          then s\<lparr>receiver_thread := ReaderRead\<rparr>
          else s\<lparr>receiver_thread := ReaderEnded Returned\<rparr>
      | ReaderRead \<Rightarrow>
          (case channel_input s of
             [] \<Rightarrow> s
           | r # rs \<Rightarrow>
               (case r of
                  ReadRaises e \<Rightarrow> reader_raise (s\<lparr>channel_input := rs\<rparr>) e
                | Data data \<Rightarrow>
                    if data \<noteq> [] then
                      (case reader_data (shared s) data of
                         (Some e, m') \<Rightarrow>
                           reader_raise (s\<lparr>channel_input := rs, shared := m'\<rparr>) e
                       | (None, m') \<Rightarrow>
                           s\<lparr>channel_input := rs, shared := m',
                             receiver_thread := ReaderTest\<rparr>)
                    else s\<lparr>channel_input := rs, receiver_thread := ReaderTest\<rparr>)))"

text \<open>
  An exception leaving the loop of \<open>writer\<close>: the bare \<open>except\<close> clears \<open>alive\<close>,
  the exception leaves \<open>writer\<close> and the thread ends.
\<close>

definition writer_raise :: "session \<Rightarrow> exn \<Rightarrow> session" where
  "writer_raise s e =
     s\<lparr>shared := (shared s)\<lparr>alive := Some False\<rparr>,
       transmitter_thread := WriterEnded (Raised e)\<rparr>"

text \<open>
  One turn of the writer thread: the test of \<open>while self.alive\<close>, or one
  \<open>console.getkey\<close> with the body that follows it. With no key in the console input
  the thread stays parked.
\<close>

definition writer_step :: "session \<Rightarrow> session" where
  "writer_step s =
     (case transmitter_thread s of
        WriterEnded out \<Rightarrow> s
      | WriterTest \<Rightarrow>
          if alive (shared s) = Some True then s\<lparr>transmitter_thread := WriterGetkey\<rparr>
          else s\<lparr>transmitter_thread := WriterEnded Returned\<rparr>
      | WriterGetkey \<Rightarrow>
          (case console_input s of
             [] \<Rightarrow> s
           | k # ks \<Rightarrow>
               (case getkey k of
                  Inl e \<Rightarrow> writer_raise (s\<lparr>console_input := ks\<rparr>) e
                | Inr c \<Rightarrow>
                    if alive (shared s) \<noteq> Some True then
                      s\<lparr>console_input := ks, transmitter_thread := WriterEnded Returned\<rparr>
                    else if c = menu_character (shared s) then
                      s\<lparr>console_input := ks, writer_menu_active := True,
                        transmitter_thread := WriterTest\<rparr>
                    else if c = exit_character (shared s) then
                      s\<lparr>console_input := ks, shared := stop (shared s),
                        transmitter_thread := WriterEnded Returned\<rparr>
                    else
                      (case writer_send (shared s) c of
                         (Some e, m') \<Rightarrow>
                           writer_raise (s\<lparr>console_input := ks, shared := m'\<rparr>) e
                       | (None, m') \<Rightarrow>
                           s\<lparr>console_input := ks, shared := m',
                             transmitter_thread := WriterTest\<rparr>))))"

text \<open>A schedule says which thread takes the next turn.\<close>

datatype thread = Rx | Tx

fun run :: "thread list \<Rightarrow> session \<Rightarrow> session" where
  "run [] s = s"
| "run (Rx # sched) s = run sched (reader_step s)"
| "run (Tx # sched) s = run sched (writer_step s)"

text \<open>
  \<open>join(transmit_only)\<close> waits for the writer thread and, unless \<open>transmit_only\<close>,
  for the reader thread. \<open>Thread.join\<close> returns once the thread has ended, however
  its target ended; it does not raise what the target raised. While a thread it waits
  for has not ended, the caller stays in \<open>join\<close>. The call of
  \<open>serial.cancel_read()\<close>, where the channel has one, only asks the channel to end a
  pending read; what the channel then delivers is part of \<open>channel_input\<close>.
\<close>

definition join :: "session \<Rightarrow> bool \<Rightarrow> outcome" where
  "join s transmit_only =
     (case transmitter_thread s of
        WriterEnded w \<Rightarrow>
          if \<not> transmit_only then
            (case receiver_thread s of ReaderEnded r \<Rightarrow> Returned | _ \<Rightarrow> Blocked)
          else Returned
      | _ \<Rightarrow> Blocked)"

text \<open>
  The end of \<open>run_terminal\<close>, the caller of the session: \<open>miniterm.join(True)\<close>, then
  \<open>miniterm.join()\<close>, then \<open>miniterm.close()\<close>, which closes the channel and
  changes nothing of the outcome. The result is what \<open>run_terminal\<close> meets in the two
  \<open>join\<close> calls: it returns from both, or it stays in one.
\<close>

definition run_terminal_joins :: "session \<Rightarrow> outcome" where
  "run_terminal_joins s =
     (case join s True of
        Returned \<Rightarrow> join s False
      | out \<Rightarrow> out)"

section \<open>Properties of the transformations\<close>

lemma map_of_comprehension:
  "map_of [(x, f x). x \<leftarrow> xs, P x] k = (if k \<in> set xs \<and> P k then Some (f k) else None)"
  by (induction xs) auto

lemma NoTerminal_REPLACEMENT_MAP_apply:
  "NoTerminal_REPLACEMENT_MAP c =
     (if c = 0x7F then Some 0x2421 else if c = 0x9B then Some 0x2425
      else if c < 32 \<and> c \<notin> {13, 10, 8, 9} then Some (0x2400 + c) else None)"
  unfolding NoTerminal_REPLACEMENT_MAP_def
  by (simp add: map_add_def map_of_comprehension)

text \<open>
  C4. The end-of-line transformations: \<open>CRLF.tx("a\nb") = "a\r\nb"\<close> and \<open>CRLF.rx\<close>
  is the identity; \<open>CR.tx("a\nb") = "a\rb"\<close> and \<open>CR.rx("a\rb") = "a\nb"\<close>; \<open>LF\<close>
  leaves text unchanged in both directions.
\<close>

theorem eol_transforms:
  "tx CRLF [0x61, 10, 0x62] = [0x61, 13, 10, 0x62] \<and> (\<forall>t. rx CRLF t = t)
   \<and> tx CR [0x61, 10, 0x62] = [0x61, 13, 0x62] \<and> rx CR [0x61, 13, 0x62] = [0x61, 10, 0x62]
   \<and> (\<forall>t. tx LF t = t \<and> rx LF t = t)"
  by (simp add: str_replace_def)

text \<open>
  C5. \<open>NoTerminal\<close>, on the rx path and on the echo path, maps every code point below
  32 other than carriage return, line feed, backspace and tab to the control picture
  at 0x2400 plus the code point, DEL to 0x2421 and CSI to 0x2425, and leaves every other
  character as it is; so 0x01 becomes 0x2401 and \<open>"\r\n\t"\<close> is unchanged.
\<close>

theorem NoTerminal_control_pictures:
  "rx NoTerminal txt =
     map (\<lambda>c. if c < 32 \<and> c \<notin> {13, 10, 8, 9} then 0x2400 + c
              else if c = 0x7F then 0x2421 else if c = 0x9B then 0x2425 else c) txt
   \<and> echo NoTerminal txt = rx NoTerminal txt
   \<and> rx NoTerminal [0x01] = [0x2401]
   \<and> rx NoTerminal [13, 10, 9] = [13, 10, 9]
   \<and> rx NoTerminal [0x7F] = [0x2421]"
  by (auto simp add: translate_def NoTerminal_REPLACEMENT_MAP_apply)

section \<open>The pipelines\<close>

lemma lookup_filters_Inr:
  "map TRANSFORMATIONS fl = map Some fs \<Longrightarrow> lookup_filters fl = Inr fs"
  by (induction fl arbitrary: fs) auto

lemma tx_loop_identity:
  "set ts \<subseteq> {LF, Transform} \<Longrightarrow> fst (tx_loop ts s err) = s"
  by (induction ts arbitrary: err) auto

lemma rx_loop_identity:
  "set ts \<subseteq> {LF, Transform} \<Longrightarrow> fst (rx_loop ts s err) = s"
  by (induction ts arbitrary: err) auto

lemma TRANSFORMATIONS_direct: "TRANSFORMATIONS ''direct'' = Some Transform"
  by (simp add: TRANSFORMATIONS_def)

lemma direct_filters:
  "map TRANSFORMATIONS fl = map Some fs \<Longrightarrow> set fl \<subseteq> {''direct''} \<Longrightarrow> set fs \<subseteq> {Transform}"
  by (induction fl arbitrary: fs) (auto simp: TRANSFORMATIONS_direct)

text \<open>
  C1. When the end-of-line name selects \<open>e\<close> and the filter names select
  \<open>f1, ..., fn\<close>, \<open>update_transformations\<close> sets the tx pipeline to
  \<open>[e, f1, ..., fn]\<close> and the rx pipeline to its reverse, and changes nothing else.
  With the end-of-line mode \<open>lf\<close> and only \<open>direct\<close> filters, the tx loop followed
  by the rx loop returns every string unchanged (every string, so every printable
  ASCII one).
\<close>

theorem update_transformations_pipeline:
  assumes e: "EOL_TRANSFORMATIONS (eol m) = Some e"
    and fs: "map TRANSFORMATIONS (filters m) = map Some fs"
  shows "update_transformations m =
           Inr (m\<lparr>tx_transformations := e # fs, rx_transformations := rev (e # fs)\<rparr>)
         \<and> (eol m = ''lf'' \<and> set (filters m) \<subseteq> {''direct''} \<longrightarrow>
              (\<forall>s err err'. fst (rx_loop (rev (e # fs)) (fst (tx_loop (e # fs) s err)) err') = s))"
proof
  show "update_transformations m =
          Inr (m\<lparr>tx_transformations := e # fs, rx_transformations := rev (e # fs)\<rparr>)"
    using e lookup_filters_Inr [OF fs] by (simp add: update_transformations_def)
next
  show "eol m = ''lf'' \<and> set (filters m) \<subseteq> {''direct''} \<longrightarrow>
          (\<forall>s err err'. fst (rx_loop (rev (e # fs)) (fst (tx_loop (e # fs) s err)) err') = s)"
  proof (intro impI allI)
    fix s err err'
    assume a: "eol m = ''lf'' \<and> set (filters m) \<subseteq> {''direct''}"
    with e have "e = LF" by (simp add: EOL_TRANSFORMATIONS_def)
    moreover from a fs have "set fs \<subseteq> {Transform}" by (simp add: direct_filters)
    ultimately have ids: "set (e # fs) \<subseteq> {LF, Transform}" by auto
    then have "set (rev (e # fs)) \<subseteq> {LF, Transform}" by simp
    then show "fst (rx_loop (rev (e # fs)) (fst (tx_loop (e # fs) s err)) err') = s"
      using tx_loop_identity [OF ids] rx_loop_identity by simp
  qed
qed

theorem update_transformations_pipeline_witness:
  "update_transformations (init_fields \<lparr>written = [], write_fault = None\<rparr> False ''lf'' [''direct'', ''direct''])
     = Inr ((init_fields \<lparr>written = [], write_fault = None\<rparr> False ''lf'' [''direct'', ''direct''])
          \<lparr>tx_transformations := [LF, Transform, Transform],
           rx_transformations := [Transform, Transform, LF]\<rparr>)
   \<and> fst (rx_loop [Transform, Transform, LF]
           (fst (tx_loop [LF, Transform, Transform] [0x48, 0x69, 0x21] [])) []) = [0x48, 0x69, 0x21]"
  using update_transformations_pipeline
    [of "init_fields \<lparr>written = [], write_fault = None\<rparr> False ''lf'' [''direct'', ''direct'']"
        LF "[Transform, Transform]"]
  by (simp add: init_fields_def EOL_TRANSFORMATIONS_def TRANSFORMATIONS_def)

section \<open>The session of \<open>run_terminal\<close>\<close>

lemma terminal_eq:
  "terminal =
     \<lparr>console = \<lparr>console_output = [], cancels = 0\<rparr>,
      serial = \<lparr>written = [], write_fault = None\<rparr>,
      stderr = [],
      self_echo = False,
      raw = False,
      input_encoding = ''UTF-8'',
      output_encoding = ''UTF-8'',
      eol = ''cr'',
      filters = [],
      tx_transformations = [CR],
      rx_transformations = [CR],
      exit_character = [0x1D],
      menu_character = [0x14],
      alive = Some True,
      reader_alive = Some True,
      rx_decoder = Some \<lparr>dec_codec = utf_8, dec_errors = Replace, buffer = []\<rparr>,
      tx_encoder = Some \<lparr>enc_codec = utf_8, enc_errors = Replace\<rparr>\<rparr>"
  by (simp add: terminal_def run_terminal_session_def Miniterm_def init_fields_def
      update_transformations_def EOL_TRANSFORMATIONS_def set_rx_encoding_def set_tx_encoding_def
      getincrementaldecoder_def getincrementalencoder_def utf8_registry_def fresh_port_def
      default_errors_def start_def Let_def)

lemmas run_defs = writer_def writer_send_def encode_def utf_8_def utf8_encode_char_def
  serial_write_def str_replace_def Console_write_def

lemma interfere_frame [simp]:
  "console (interfere i m) = console m"
  "serial (interfere i m) = serial m"
  "stderr (interfere i m) = stderr m"
  "self_echo (interfere i m) = self_echo m"
  "raw (interfere i m) = raw m"
  "tx_transformations (interfere i m) = tx_transformations m"
  "rx_transformations (interfere i m) = rx_transformations m"
  "exit_character (interfere i m) = exit_character m"
  "menu_character (interfere i m) = menu_character m"
  "rx_decoder (interfere i m) = rx_decoder m"
  "tx_encoder (interfere i m) = tx_encoder m"
  by (cases i; simp)+

section \<open>The writer loop\<close>

text \<open>
  C2, as the claim states it, fails when the exit character is also the menu character:
  the menu test comes first, so the key sets \<open>menu_active\<close>, \<open>alive\<close> stays true, and
  the loop goes on to read and send the next key.
\<close>

theorem exit_key_shadowed_by_menu_key:
  "getkey (Key [0x1D]) = Inr (exit_character (terminal\<lparr>menu_character := [0x1D]\<rparr>))
   \<and> writer (terminal\<lparr>menu_character := [0x1D]\<rparr>) [(Quiet, Key [0x1D]), (Quiet, Key [0x61])]
       = (Blocked,
          terminal\<lparr>menu_character := [0x1D],
                    serial := \<lparr>written = [[0x61]], write_fault = None\<rparr>\<rparr>,
          True)
   \<and> alive (terminal\<lparr>menu_character := [0x1D],
                      serial := \<lparr>written = [[0x61]], write_fault = None\<rparr>\<rparr>) = Some True"
  by (simp add: terminal_eq run_defs)

text \<open>
  C2, amended. When the writer loop, running, reads a key equal to the exit character,
  and the exit character is not also the menu character, the loop returns with \<open>alive\<close>
  false. Apart from \<open>alive\<close> and a flag another thread cleared meanwhile, the state is
  the one before the key: nothing was logged by a transformation, written to the
  channel or echoed to the console, and no later key is read.
\<close>

theorem writer_exit_keystroke:
  assumes "alive m = Some True"
    and "getkey k = Inr (exit_character m)"
    and "exit_character m \<noteq> menu_character m"
  shows "writer_loop m menu_active ((i, k) # evs)
           = (Returned, (interfere i m)\<lparr>alive := Some False\<rparr>, menu_active)
         \<and> writer m ((i, k) # evs) = (Returned, (interfere i m)\<lparr>alive := Some False\<rparr>, False)"
proof -
  have loop: "writer_loop m ma ((i, k) # evs)
           = (Returned, (interfere i m)\<lparr>alive := Some False\<rparr>, ma)" for ma
    using assms by (cases i) (simp_all add: stop_def)
  then show ?thesis by (simp add: writer_def)
qed

theorem writer_exit_keystroke_witness:
  "writer terminal [(Quiet, Key [0x1D]), (Quiet, Key [0x61])]
     = (Returned, terminal\<lparr>alive := Some False\<rparr>, False)
   \<and> serial (terminal\<lparr>alive := Some False\<rparr>) = \<lparr>written = [], write_fault = None\<rparr>"
  using writer_exit_keystroke [of terminal "Key [0x1D]" False Quiet "[(Quiet, Key [0x61])]"]
  by (simp add: terminal_eq)

text \<open>
  C8. The docstring of \<open>writer\<close> says the key after the menu character is interpreted
  locally. The code sets \<open>menu_active\<close> and never reads it: after Ctrl+T the key
  \<open>a\<close> goes through the tx transformations and the encoder and is written to the
  channel.
\<close>

theorem key_after_menu_key_is_sent:
  "writer terminal [(Quiet, Key [0x14]), (Quiet, Key [0x61])] =
   (Blocked, terminal\<lparr>serial := \<lparr>written = [[0x61]], write_fault = None\<rparr>\<rparr>, True)"
  by (simp add: terminal_eq run_defs)

lemma writer_send_console:
  "writer_send m c = (None, m') \<Longrightarrow>
     console m' = (if self_echo m then Console_write (console m) (echo_loop (tx_transformations m) c)
                   else console m)"
  by (auto simp: writer_send_def Let_def split: prod.splits option.splits sum.splits if_splits)

lemma echo_loop_fold: "echo_loop ts c = fold echo ts c"
  by (induction ts arbitrary: c) auto

lemma tx_loop_fold: "fst (tx_loop ts c err) = fold tx ts c"
  by (induction ts arbitrary: c err) auto

text \<open>
  C9. For a key \<open>c\<close> that is neither the menu nor the exit character, read while the
  session is alive and sent without an exception: with \<open>self.echo\<close> set, the console
  receives one more write, of the text that results from applying the echo hooks of
  \<open>tx_transformations\<close>, first to last, to \<open>c\<close> itself (not to the text the tx
  hooks made of it); with \<open>self.echo\<close> clear the console is unchanged. The loop then
  goes on with the next key.
\<close>

theorem writer_local_echo:
  assumes "alive m = Some True"
    and "getkey k = Inr c"
    and "alive (interfere i m) = Some True"
    and "c \<noteq> menu_character m" and "c \<noteq> exit_character m"
    and "writer_send (interfere i m) c = (None, m')"
  shows "writer_loop m menu_active ((i, k) # evs) = writer_loop m' menu_active evs
         \<and> console m' =
             (if self_echo m then
                (console m)\<lparr>console_output :=
                   console_output (console m) @ [Text (fold echo (tx_transformations m) c)]\<rparr>
              else console m)"
proof
  show "writer_loop m menu_active ((i, k) # evs) = writer_loop m' menu_active evs"
    using assms by simp
next
  show "console m' =
          (if self_echo m then
             (console m)\<lparr>console_output :=
                console_output (console m) @ [Text (fold echo (tx_transformations m) c)]\<rparr>
           else console m)"
    using writer_send_console [OF assms(6)] by (simp add: echo_loop_fold Console_write_def)
qed

theorem writer_local_echo_witness:
  "writer_loop
     (terminal\<lparr>self_echo := True, filters := [''colorize'', ''default''],
               tx_transformations := [CR, Colorize, NoTerminal],
               rx_transformations := [NoTerminal, Colorize, CR]\<rparr>) False [(Quiet, Key [0x0A])]
     = (Blocked,
        terminal\<lparr>self_echo := True, filters := [''colorize'', ''default''],
                 tx_transformations := [CR, Colorize, NoTerminal],
                 rx_transformations := [NoTerminal, Colorize, CR],
                 serial := \<lparr>written = [[0x0D]], write_fault = None\<rparr>,
                 console := \<lparr>console_output = [Text [0x241B, 0x5B, 0x33, 0x31, 0x6D, 0x0A]],
                             cancels = 0\<rparr>\<rparr>, False)
   \<and> fold echo [CR, Colorize, NoTerminal] [0x0A] = [0x241B, 0x5B, 0x33, 0x31, 0x6D, 0x0A]
   \<and> fold echo [NoTerminal, Colorize, CR] [0x0A] = [0x1B, 0x5B, 0x33, 0x31, 0x6D, 0x0A]
   \<and> fold echo [CR, Colorize, NoTerminal] (fold tx [CR, Colorize, NoTerminal] [0x0A])
       = [0x241B, 0x5B, 0x33, 0x31, 0x6D, 0x0D]"
  using writer_local_echo
    [of "terminal\<lparr>self_echo := True, filters := [''colorize'', ''default''],
               tx_transformations := [CR, Colorize, NoTerminal],
               rx_transformations := [NoTerminal, Colorize, CR]\<rparr>"
        "Key [0x0A]" "[0x0A]" Quiet
        "terminal\<lparr>self_echo := True, filters := [''colorize'', ''default''],
                 tx_transformations := [CR, Colorize, NoTerminal],
                 rx_transformations := [NoTerminal, Colorize, CR],
                 serial := \<lparr>written = [[0x0D]], write_fault = None\<rparr>,
                 console := \<lparr>console_output = [Text [0x241B, 0x5B, 0x33, 0x31, 0x6D, 0x0A]],
                             cancels = 0\<rparr>\<rparr>" False "[]"]
  by (simp add: terminal_eq run_defs translate_def NoTerminal_REPLACEMENT_MAP_apply echo_color_def)

section \<open>The reader loop\<close>

lemma reader_loop_stopped:
  "alive m \<noteq> Some True \<Longrightarrow> reader_loop m evs = (Returned, m)"
  by (cases evs) auto

lemma reader_data_alive:
  "reader_data m data = (r, m') \<Longrightarrow> alive m' = alive m"
  by (auto simp: reader_data_def split: if_splits option.splits sum.splits prod.splits)

lemma reader_stopped: "alive m = Some False \<Longrightarrow> reader m evs = (Returned, m)"
  by (simp add: reader_def reader_loop_stopped)

lemma reader_loop_after_ClearAlive:
  "fst (reader_loop m ((ClearAlive, r) # evs)) \<noteq> Blocked"
proof (cases "alive m = Some True \<and> reader_alive m = Some True")
  case False
  then show ?thesis by auto
next
  case True
  show ?thesis
  proof (cases r)
    case (ReadRaises e)
    with True show ?thesis by simp
  next
    case (Data data)
    show ?thesis
    proof (cases "data = []")
      case True
      with Data \<open>alive m = Some True \<and> reader_alive m = Some True\<close> show ?thesis
        by (simp add: reader_loop_stopped)
    next
      case False
      obtain x m' where rd: "reader_data (m\<lparr>alive := Some False\<rparr>) data = (x, m')"
        by (cases "reader_data (m\<lparr>alive := Some False\<rparr>) data") auto
      from reader_data_alive [OF rd] have "alive m' \<noteq> Some True" by simp
      with rd Data False True show ?thesis
        by (cases x) (simp_all add: reader_loop_stopped)
    qed
  qed
qed

text \<open>
  C10. When an exception leaves the loop of \<open>writer\<close>, whatever the exception,
  \<open>writer\<close> raises that exception to its caller, and the state it leaves is the
  loop's with \<open>alive\<close> false. A reader loop that tests its condition in that state
  returns without reading, and a reader parked in a read while \<open>alive\<close> is cleared
  finishes that read and does not start another.
\<close>

theorem writer_exception_clears_alive:
  assumes "fst (writer_loop m False evs) = Raised e"
  shows "fst (writer m evs) = Raised e
         \<and> alive (fst (snd (writer m evs))) = Some False
         \<and> fst (snd (writer m evs)) = (fst (snd (writer_loop m False evs)))\<lparr>alive := Some False\<rparr>
         \<and> (\<forall>revs. reader (fst (snd (writer m evs))) revs = (Returned, fst (snd (writer m evs))))
         \<and> (\<forall>m2 r revs. fst (reader m2 ((ClearAlive, r) # revs)) \<noteq> Blocked)"
proof -
  obtain m' ma where wl: "writer_loop m False evs = (Raised e, m', ma)"
    using assms by (cases "writer_loop m False evs") auto
  then have w: "writer m evs = (Raised e, m'\<lparr>alive := Some False\<rparr>, ma)"
    by (simp add: writer_def)
  have "fst (reader m2 ((ClearAlive, r) # revs)) \<noteq> Blocked" for m2 r revs
    using reader_loop_after_ClearAlive [of m2 r revs]
    by (auto simp: reader_def split: prod.splits outcome.splits exn.splits)
  with w wl show ?thesis by (simp add: reader_stopped)
qed

lemma writer_loop_write_fault:
  "writer_loop (terminal\<lparr>serial := \<lparr>written = [], write_fault = Some 0\<rparr>\<rparr>) False
     [(Quiet, Key [0x61])]
   = (Raised SerialException, terminal\<lparr>serial := \<lparr>written = [], write_fault = Some 0\<rparr>\<rparr>, False)"
  by (simp add: terminal_eq run_defs)

theorem writer_exception_clears_alive_witness:
  "writer (terminal\<lparr>serial := \<lparr>written = [], write_fault = Some 0\<rparr>\<rparr>) [(Quiet, Key [0x61])]
     = (Raised SerialException,
        terminal\<lparr>serial := \<lparr>written = [], write_fault = Some 0\<rparr>, alive := Some False\<rparr>, False)
   \<and> reader (terminal\<lparr>serial := \<lparr>written = [], write_fault = Some 0\<rparr>, alive := Some False\<rparr>)
        [(Quiet, Data [0x41])]
     = (Returned, terminal\<lparr>serial := \<lparr>written = [], write_fault = Some 0\<rparr>, alive := Some False\<rparr>)"
  using writer_exception_clears_alive
    [of "terminal\<lparr>serial := \<lparr>written = [], write_fault = Some 0\<rparr>\<rparr>" "[(Quiet, Key [0x61])]"
        SerialException] writer_loop_write_fault
  by (simp add: terminal_eq run_defs reader_def)

text \<open>
  C7, as the claim states it, fails for the writer: with \<open>raw\<close> set and the
  end-of-line mode \<open>cr\<close>, the key line feed reaches the channel as carriage return.
\<close>

theorem raw_mode_writer_still_transforms:
  "raw (terminal\<lparr>raw := True\<rparr>)
   \<and> writer (terminal\<lparr>raw := True\<rparr>) [(Quiet, Key [0x0A])]
       = (Blocked, terminal\<lparr>raw := True, serial := \<lparr>written = [[0x0D]], write_fault = None\<rparr>\<rparr>,
          False)"
  by (simp add: terminal_eq run_defs)

lemma interfere_raw: "interfere i (m\<lparr>raw := b\<rparr>) = (interfere i m)\<lparr>raw := b\<rparr>"
  by (cases i) simp_all

lemma writer_send_raw:
  "writer_send (m\<lparr>raw := b\<rparr>) c =
     (case writer_send m c of (x, m') \<Rightarrow> (x, m'\<lparr>raw := b\<rparr>))"
  by (simp add: writer_send_def Let_def split: prod.splits option.splits sum.splits)

lemma writer_loop_raw:
  "writer_loop (m\<lparr>raw := b\<rparr>) ma evs =
     (case writer_loop m ma evs of (out, m', ma') \<Rightarrow> (out, m'\<lparr>raw := b\<rparr>, ma'))"
proof (induction evs arbitrary: m ma)
  case Nil
  show ?case by simp
next
  case (Cons ev evs)
  obtain i k where ev: "ev = (i, k)" by (cases ev)
  show ?case
  proof (cases "getkey k")
    case (Inl e)
    then show ?thesis by (simp add: ev interfere_raw)
  next
    case (Inr c)
    obtain x m2 where ws: "writer_send (interfere i m) c = (x, m2)"
      by (cases "writer_send (interfere i m) c")
    then have ws': "writer_send ((interfere i m)\<lparr>raw := b\<rparr>) c = (x, m2\<lparr>raw := b\<rparr>)"
      by (simp add: writer_send_raw)
    show ?thesis
      using Inr ws ws' Cons.IH
      by (cases x) (simp_all add: ev interfere_raw Let_def stop_def)
  qed
qed

lemma writer_send_channel:
  assumes "tx_encoder m = Some enc"
    and "encode enc (fold tx (tx_transformations m) c) = Inr bs"
    and "write_fault (serial m) \<noteq> Some (length (written (serial m)))"
  shows "\<exists>m'. writer_send m c = (None, m')
           \<and> serial m' = (serial m)\<lparr>written := written (serial m) @ [bs]\<rparr> \<and> raw m' = raw m"
proof -
  obtain t err where tl: "tx_loop (tx_transformations m) c (stderr m) = (t, err)"
    by (cases "tx_loop (tx_transformations m) c (stderr m)")
  with tx_loop_fold [of "tx_transformations m" c "stderr m"]
  have "t = fold tx (tx_transformations m) c" by simp
  with tl assms show ?thesis
    by (simp add: writer_send_def serial_write_def Let_def)
qed

text \<open>
  C7, amended. With \<open>raw\<close> set, the reader writes the received bytes to the console as
  they are, without the decoder and the rx transformations. The writer does not read
  the flag: whether \<open>raw\<close> is set or not, an ordinary key goes through the tx hooks of
  \<open>tx_transformations\<close>, first to last, then through the encoder, and the bytes the
  encoder gives are what is written to the channel; and a whole run of the writer is
  the same with the flag set or clear.
\<close>

theorem raw_mode_reader_only:
  "(raw m \<longrightarrow>
      reader_data m data = (None, m\<lparr>console := Console_write_bytes (console m) data\<rparr>))
   \<and> (raw m \<and> alive m = Some True \<and> reader_alive m = Some True \<and> data \<noteq> [] \<longrightarrow>
        reader_loop m ((i, Data data) # revs)
          = reader_loop
              ((interfere i m)\<lparr>console :=
                 (console m)\<lparr>console_output := console_output (console m) @ [Bytes data]\<rparr>\<rparr>)
              revs)
   \<and> (alive m = Some True \<and> getkey k = Inr c \<and> alive (interfere i m) = Some True
        \<and> c \<noteq> menu_character m \<and> c \<noteq> exit_character m
        \<and> tx_encoder m = Some enc
        \<and> encode enc (fold tx (tx_transformations m) c) = Inr bs
        \<and> write_fault (serial m) \<noteq> Some (length (written (serial m))) \<longrightarrow>
        (\<exists>m'. writer_loop m ma ((i, k) # evs) = writer_loop m' ma evs
              \<and> serial m' = (serial m)\<lparr>written := written (serial m) @ [bs]\<rparr>
              \<and> raw m' = raw m))
   \<and> writer (m\<lparr>raw := b\<rparr>) evs =
       (case writer m evs of (out, m', ma) \<Rightarrow> (out, m'\<lparr>raw := b\<rparr>, ma))"
proof (intro conjI impI)
  show "reader_data m data = (None, m\<lparr>console := Console_write_bytes (console m) data\<rparr>)"
    if "raw m" using that by (simp add: reader_data_def)
next
  assume a: "raw m \<and> alive m = Some True \<and> reader_alive m = Some True \<and> data \<noteq> []"
  then have "reader_data (interfere i m) data
      = (None, (interfere i m)\<lparr>console := Console_write_bytes (console m) data\<rparr>)"
    by (simp add: reader_data_def)
  with a show "reader_loop m ((i, Data data) # revs)
          = reader_loop
              ((interfere i m)\<lparr>console :=
                 (console m)\<lparr>console_output := console_output (console m) @ [Bytes data]\<rparr>\<rparr>)
              revs"
    by (simp add: Console_write_bytes_def)
next
  assume a: "alive m = Some True \<and> getkey k = Inr c \<and> alive (interfere i m) = Some True
        \<and> c \<noteq> menu_character m \<and> c \<noteq> exit_character m
        \<and> tx_encoder m = Some enc
        \<and> encode enc (fold tx (tx_transformations m) c) = Inr bs
        \<and> write_fault (serial m) \<noteq> Some (length (written (serial m)))"
  then obtain m' where ws: "writer_send (interfere i m) c = (None, m')"
    and ser: "serial m' = (serial m)\<lparr>written := written (serial m) @ [bs]\<rparr>"
    and r: "raw m' = raw m"
    using writer_send_channel [of "interfere i m" enc c bs] by auto
  from a ws have "writer_loop m ma ((i, k) # evs) = writer_loop m' ma evs" by simp
  with ser r show "\<exists>m'. writer_loop m ma ((i, k) # evs) = writer_loop m' ma evs
              \<and> serial m' = (serial m)\<lparr>written := written (serial m) @ [bs]\<rparr>
              \<and> raw m' = raw m" by blast
next
  obtain out m' ma where wl: "writer_loop m False evs = (out, m', ma)"
    by (cases "writer_loop m False evs") auto
  then have "writer_loop (m\<lparr>raw := b\<rparr>) False evs = (out, m'\<lparr>raw := b\<rparr>, ma)"
    by (simp add: writer_loop_raw)
  with wl show "writer (m\<lparr>raw := b\<rparr>) evs =
       (case writer m evs of (out, m', ma) \<Rightarrow> (out, m'\<lparr>raw := b\<rparr>, ma))"
    by (cases out) (simp_all add: writer_def)
qed

theorem raw_mode_reader_only_witness:
  "reader (terminal\<lparr>raw := True\<rparr>) [(Quiet, Data [0xC3, 0x0D])]
     = (Blocked, terminal\<lparr>raw := True,
                  console := \<lparr>console_output = [Bytes [0xC3, 0x0D]], cancels = 0\<rparr>\<rparr>)
   \<and> fold tx [CR] [0x0A] = [0x0D]
   \<and> encode \<lparr>enc_codec = utf_8, enc_errors = Replace\<rparr> [0x0D] = Inr [0x0D]
   \<and> writer (terminal\<lparr>raw := True\<rparr>) [(Quiet, Key [0x0A])]
     = (Blocked, terminal\<lparr>raw := True, serial := \<lparr>written = [[0x0D]], write_fault = None\<rparr>\<rparr>,
        False)"
  using raw_mode_reader_only [of "terminal\<lparr>raw := True\<rparr>" "[0xC3, 0x0D]" Quiet "[]"
      "Key [0x0A]" "[0x0A]" "\<lparr>enc_codec = utf_8, enc_errors = Replace\<rparr>" "[0x0D]" False "[]" True]
  by (simp add: terminal_eq run_defs reader_def Console_write_bytes_def)

lemma reader_loop_append:
  "reader_loop m pre = (Blocked, m1) \<Longrightarrow> reader_loop m (pre @ evs) = reader_loop m1 evs"
proof (induction pre arbitrary: m)
  case Nil
  then show ?case by (cases evs) (auto split: if_splits)
next
  case (Cons ev pre)
  obtain i r where ev: "ev = (i, r)" by (cases ev)
  from Cons.prems show ?case
    by (auto simp: ev Cons.IH split: if_splits read_result.splits prod.splits option.splits)
qed

section \<open>The two threads\<close>

text \<open>
  The threads take the same turns as the loops above: run alone on the same input, the
  reader thread ends as \<open>reader\<close> does and the writer thread as \<open>writer_loop\<close> under
  the handler of \<open>writer\<close>.
\<close>

lemma reader_of_raise:
  "reader_loop m evs = (Raised e, m1) \<Longrightarrow>
     reader m evs =
       (Raised e, if e = SerialException
                  then m1\<lparr>alive := Some False, console := Console_cancel (console m1)\<rparr> else m1)"
  by (cases e) (simp_all add: reader_def)

lemma reader_thread_runs_reader:
  assumes "receiver_thread s = ReaderTest"
    and "channel_input s = map snd evs"
    and "\<forall>ev\<in>set evs. fst ev = Quiet"
    and "reader (shared s) evs = (out, m')"
    and "out \<noteq> Blocked"
  shows "\<exists>n. receiver_thread (run (replicate n Rx) s) = ReaderEnded out
             \<and> shared (run (replicate n Rx) s) = m'"
  using assms
proof (induction evs arbitrary: s)
  case Nil
  then have "receiver_thread (run (replicate 1 Rx) s) = ReaderEnded out
             \<and> shared (run (replicate 1 Rx) s) = m'"
    by (auto simp: reader_def reader_step_def split: if_splits)
  then show ?case by blast
next
  case (Cons ev evs)
  obtain r where ev: "ev = (Quiet, r)" using Cons.prems(3) by (cases ev) auto
  show ?case
  proof (cases "alive (shared s) = Some True \<and> reader_alive (shared s) = Some True")
    case False
    with Cons.prems ev have "receiver_thread (run (replicate 1 Rx) s) = ReaderEnded out
             \<and> shared (run (replicate 1 Rx) s) = m'"
      by (auto simp: reader_def reader_step_def split: if_splits)
    then show ?thesis by blast
  next
    case True
    let ?s1 = "reader_step s"
    have s1: "?s1 = s\<lparr>receiver_thread := ReaderRead\<rparr>"
      using True Cons.prems(1) by (simp add: reader_step_def)
    have ci: "channel_input ?s1 = r # map snd evs" using Cons.prems(2) ev s1 by simp
    let ?s2 = "reader_step ?s1"
    have two: "run (replicate (Suc (Suc n)) Rx) s = run (replicate n Rx) ?s2" for n by simp
    consider (raises) e where "r = ReadRaises e"
      | (empty) "r = Data []"
      | (fails) data e m1 where "r = Data data" "data \<noteq> []" "reader_data (shared s) data = (Some e, m1)"
      | (goes) data m1 where "r = Data data" "data \<noteq> []" "reader_data (shared s) data = (None, m1)"
    proof (cases r)
      case (Data data)
      then show ?thesis
        using that(2,3,4) by (cases "data = []"; cases "reader_data (shared s) data"; cases "fst (reader_data (shared s) data)") auto
    next
      case (ReadRaises e)
      then show ?thesis using that(1) by blast
    qed
    then show ?thesis
    proof cases
      case raises
      have "reader_loop (shared s) (ev # evs) = (Raised e, shared s)"
        using raises True ev by simp
      from reader_of_raise [OF this] Cons.prems(4)
      have "receiver_thread ?s2 = ReaderEnded out \<and> shared ?s2 = m'"
        using raises s1 ci by (auto simp: reader_step_def reader_raise_def)
      then show ?thesis using two [of 0] by (metis replicate_0 run.simps(1))
    next
      case fails
      have "reader_loop (shared s) (ev # evs) = (Raised e, m1)"
        using fails True ev by simp
      from reader_of_raise [OF this] Cons.prems(4)
      have "receiver_thread ?s2 = ReaderEnded out \<and> shared ?s2 = m'"
        using fails s1 ci by (auto simp: reader_step_def reader_raise_def)
      then show ?thesis using two [of 0] by (metis replicate_0 run.simps(1))
    next
      case empty
      have s2: "?s2 = s\<lparr>channel_input := map snd evs, receiver_thread := ReaderTest\<rparr>"
        using empty s1 ci by (simp add: reader_step_def)
      have rd: "reader (shared ?s2) evs = (out, m')"
        using Cons.prems(4) True empty ev s2 by (simp add: reader_def)
      from Cons.IH [of ?s2] rd s2 Cons.prems(3,5)
      obtain n where "receiver_thread (run (replicate n Rx) ?s2) = ReaderEnded out
             \<and> shared (run (replicate n Rx) ?s2) = m'" by auto
      then show ?thesis using two [of n] by metis
    next
      case goes
      have s2: "?s2 = s\<lparr>channel_input := map snd evs, shared := m1, receiver_thread := ReaderTest\<rparr>"
        using goes s1 ci by (simp add: reader_step_def)
      have rd: "reader (shared ?s2) evs = (out, m')"
        using Cons.prems(4) True goes ev s2 by (simp add: reader_def)
      from Cons.IH [of ?s2] rd s2 Cons.prems(3,5)
      obtain n where "receiver_thread (run (replicate n Rx) ?s2) = ReaderEnded out
             \<and> shared (run (replicate n Rx) ?s2) = m'" by auto
      then show ?thesis using two [of n] by metis
    qed
  qed
qed

lemma writer_thread_runs_writer_loop:
  assumes "transmitter_thread s = WriterTest"
    and "console_input s = map snd evs"
    and "\<forall>ev\<in>set evs. fst ev = Quiet"
    and "writer_loop (shared s) (writer_menu_active s) evs = (out, m1, ma)"
    and "out \<noteq> Blocked"
  shows "\<exists>n. transmitter_thread (run (replicate n Tx) s) = WriterEnded out
             \<and> shared (run (replicate n Tx) s)
                 = (case out of Raised e \<Rightarrow> m1\<lparr>alive := Some False\<rparr> | _ \<Rightarrow> m1)
             \<and> writer_menu_active (run (replicate n Tx) s) = ma"
  using assms
proof (induction evs arbitrary: s)
  case Nil
  then have "transmitter_thread (run (replicate 1 Tx) s) = WriterEnded out
             \<and> shared (run (replicate 1 Tx) s)
                 = (case out of Raised e \<Rightarrow> m1\<lparr>alive := Some False\<rparr> | _ \<Rightarrow> m1)
             \<and> writer_menu_active (run (replicate 1 Tx) s) = ma"
    by (auto simp: writer_step_def split: if_splits)
  then show ?case by blast
next
  case (Cons ev evs)
  obtain k where ev: "ev = (Quiet, k)" using Cons.prems(3) by (cases ev) auto
  show ?case
  proof (cases "alive (shared s) = Some True")
    case False
    with Cons.prems ev have "transmitter_thread (run (replicate 1 Tx) s) = WriterEnded out
             \<and> shared (run (replicate 1 Tx) s)
                 = (case out of Raised e \<Rightarrow> m1\<lparr>alive := Some False\<rparr> | _ \<Rightarrow> m1)
             \<and> writer_menu_active (run (replicate 1 Tx) s) = ma"
      by (auto simp: writer_step_def split: if_splits)
    then show ?thesis by blast
  next
    case True
    let ?s1 = "writer_step s"
    have s1: "?s1 = s\<lparr>transmitter_thread := WriterGetkey\<rparr>"
      using True Cons.prems(1) by (simp add: writer_step_def)
    have ci: "console_input ?s1 = k # map snd evs" using Cons.prems(2) ev s1 by simp
    let ?s2 = "writer_step ?s1"
    have two: "run (replicate (Suc (Suc n)) Tx) s = run (replicate n Tx) ?s2" for n by simp
    have stop_here: ?thesis
      if "transmitter_thread ?s2 = WriterEnded out
          \<and> shared ?s2 = (case out of Raised e \<Rightarrow> m1\<lparr>alive := Some False\<rparr> | _ \<Rightarrow> m1)
          \<and> writer_menu_active ?s2 = ma"
      using that two [of 0] by (metis replicate_0 run.simps(1))
    have go_on: ?thesis
      if "transmitter_thread ?s2 = WriterTest" "console_input ?s2 = map snd evs"
        "writer_loop (shared ?s2) (writer_menu_active ?s2) evs = (out, m1, ma)"
    proof -
      from Cons.IH [OF that(1,2) _ that(3) Cons.prems(5)] Cons.prems(3)
      obtain n where "transmitter_thread (run (replicate n Tx) ?s2) = WriterEnded out
             \<and> shared (run (replicate n Tx) ?s2)
                 = (case out of Raised e \<Rightarrow> m1\<lparr>alive := Some False\<rparr> | _ \<Rightarrow> m1)
             \<and> writer_menu_active (run (replicate n Tx) ?s2) = ma" by auto
      then show ?thesis using two [of n] by metis
    qed
    show ?thesis
    proof (cases "getkey k")
      case (Inl e)
      show ?thesis
        using Inl True Cons.prems(4) ev s1 ci
        by (intro stop_here) (auto simp: writer_step_def writer_raise_def)
    next
      case (Inr c)
      show ?thesis
      proof (cases "c = menu_character (shared s)")
        case True
        show ?thesis
          using Inr True \<open>alive (shared s) = Some True\<close> Cons.prems(4) ev s1 ci
          by (intro go_on) (auto simp: writer_step_def)
      next
        case notmenu: False
        show ?thesis
        proof (cases "c = exit_character (shared s)")
          case True
          show ?thesis
            using Inr True notmenu \<open>alive (shared s) = Some True\<close> Cons.prems(4) ev s1 ci
            by (intro stop_here) (auto simp: writer_step_def)
        next
          case False
          obtain x m2 where ws: "writer_send (shared s) c = (x, m2)"
            by (cases "writer_send (shared s) c")
          show ?thesis
          proof (cases x)
            case None
            show ?thesis
              using Inr False notmenu ws None \<open>alive (shared s) = Some True\<close> Cons.prems(4) ev s1 ci
              by (intro go_on) (auto simp: writer_step_def)
          next
            case (Some e)
            show ?thesis
              using Inr False notmenu ws Some \<open>alive (shared s) = Some True\<close> Cons.prems(4) ev s1 ci
              by (intro stop_here) (auto simp: writer_step_def writer_raise_def)
          qed
        qed
      qed
    qed
  qed
qed

lemmas thread_defs = start_threads_def reader_step_def writer_step_def reader_raise_def
  writer_raise_def join_def run_terminal_joins_def cancel_key_def Console_cancel_def start_def

text \<open>
  C3, as the claim states it, fails in its last part. \<open>reader\<close> is the target of a
  thread: the exception it raises again ends that thread and goes no further. The
  writer leaves its loop, both \<open>join\<close> calls of \<open>run_terminal\<close> return, and the
  caller of the session receives no exception.
\<close>

theorem reader_fault_not_raised_to_caller:
  "receiver_thread
     (run [Tx, Tx, Rx, Rx, Rx, Rx, Tx]
        (start_threads Posix terminal [Data [0x41], ReadRaises SerialException] []))
     = ReaderEnded (Raised SerialException)
   \<and> transmitter_thread
     (run [Tx, Tx, Rx, Rx, Rx, Rx, Tx]
        (start_threads Posix terminal [Data [0x41], ReadRaises SerialException] []))
     = WriterEnded Returned
   \<and> run_terminal_joins
     (run [Tx, Tx, Rx, Rx, Rx, Rx, Tx]
        (start_threads Posix terminal [Data [0x41], ReadRaises SerialException] []))
     = Returned"
  by (simp add: thread_defs terminal_eq reader_data_def decode_def utf_8_def utf_8_decode_def
      utf8_decode_step_def decode_errors_def Console_write_def str_replace_def)

lemma reader_step_ended:
  "receiver_thread s = ReaderEnded out \<Longrightarrow> reader_step s = s"
  by (simp add: reader_step_def)

lemma writer_step_ended:
  "transmitter_thread s = WriterEnded out \<Longrightarrow> writer_step s = s"
  by (simp add: writer_step_def)

lemma writer_step_after_fault:
  assumes "alive (shared s) = Some False"
    and "transmitter_thread s = WriterGetkey \<longrightarrow> console_input s \<noteq> []"
  shows "(\<exists>out. transmitter_thread (writer_step s) = WriterEnded out)
         \<and> alive (shared (writer_step s)) = Some False
         \<and> serial (shared (writer_step s)) = serial (shared s)
         \<and> receiver_thread (writer_step s) = receiver_thread s"
proof (cases "transmitter_thread s")
  case WriterTest
  with assms show ?thesis by (simp add: writer_step_def)
next
  case WriterGetkey
  with assms obtain k ks where "console_input s = k # ks" by (cases "console_input s") auto
  with WriterGetkey assms(1) show ?thesis
    by (cases "getkey k") (simp_all add: writer_step_def writer_raise_def)
next
  case (WriterEnded out)
  with assms show ?thesis by (simp add: writer_step_def)
qed

lemma run_after_writer_ended:
  assumes "receiver_thread s = ReaderEnded r" and "transmitter_thread s = WriterEnded w"
  shows "run sched s = s"
  using assms
  by (induction sched s rule: run.induct) (simp_all add: reader_step_ended writer_step_ended)

lemma run_after_fault:
  assumes "receiver_thread s = ReaderEnded r"
    and "alive (shared s) = Some False"
    and "transmitter_thread s = WriterGetkey \<longrightarrow> console_input s \<noteq> []"
    and "Tx \<in> set sched"
  shows "receiver_thread (run sched s) = ReaderEnded r
         \<and> (\<exists>out. transmitter_thread (run sched s) = WriterEnded out)
         \<and> serial (shared (run sched s)) = serial (shared s)"
  using assms
proof (induction sched arbitrary: s)
  case Nil
  then show ?case by simp
next
  case (Cons t sched)
  show ?case
  proof (cases t)
    case Rx
    with Cons.prems have "Tx \<in> set sched" by auto
    with Cons.IH [of s] Cons.prems Rx show ?thesis
      by (simp add: reader_step_ended)
  next
    case Tx
    from writer_step_after_fault [OF Cons.prems(2,3)] Cons.prems(1)
    obtain out where w: "transmitter_thread (writer_step s) = WriterEnded out"
      and r: "receiver_thread (writer_step s) = ReaderEnded r"
      and ser: "serial (shared (writer_step s)) = serial (shared s)" by auto
    from run_after_writer_ended [OF r w] have "run sched (writer_step s) = writer_step s" .
    with Tx w r ser show ?thesis by simp
  qed
qed

text \<open>
  C3, amended. When the reader loop has consumed any number of reads and is still
  running, and the next read raises \<open>SerialException\<close>, \<open>reader\<close> sets \<open>alive\<close> to
  false, calls \<open>Console.cancel()\<close> once and raises the same exception out of
  \<open>reader\<close>. In the session, that ends the reader thread with the exception, and the
  key \<open>cancel\<close> put into the console input makes a parked \<open>getkey\<close> return: at its
  next turn the writer thread ends, whatever it was doing, without writing to the
  channel. The exception is not passed on: \<open>join\<close> and \<open>run_terminal\<close> return.
\<close>

theorem reader_transport_fault:
  "(reader_loop m pre = (Blocked, m1) \<longrightarrow>
      reader m (pre @ (i, ReadRaises SerialException) # evs)
        = (Raised SerialException,
           (interfere i m1)\<lparr>alive := Some False,
                             console := (console m1)\<lparr>cancels := Suc (cancels (console m1))\<rparr>\<rparr>))
   \<and> (receiver_thread s = ReaderRead \<and> channel_input s = ReadRaises SerialException # rs \<longrightarrow>
        reader_step s
          = s\<lparr>channel_input := rs,
              shared := (shared s)\<lparr>alive := Some False,
                 console := (console (shared s))\<lparr>cancels := Suc (cancels (console (shared s)))\<rparr>\<rparr>,
              console_input := console_input s @ [Key (cancel_key (os_name s))],
              receiver_thread := ReaderEnded (Raised SerialException)\<rparr>
        \<and> (\<forall>sched. Tx \<in> set sched \<longrightarrow>
              receiver_thread (run sched (reader_step s)) = ReaderEnded (Raised SerialException)
              \<and> (\<exists>out. transmitter_thread (run sched (reader_step s)) = WriterEnded out)
              \<and> serial (shared (run sched (reader_step s))) = serial (shared s)
              \<and> run_terminal_joins (run sched (reader_step s)) = Returned))"
proof (intro conjI impI allI)
  assume pre: "reader_loop m pre = (Blocked, m1)"
  then have "alive m1 = Some True \<and> reader_alive m1 = Some True"
    by (induction pre arbitrary: m)
       (auto split: if_splits read_result.splits prod.splits option.splits)
  then have "reader_loop m1 ((i, ReadRaises SerialException) # evs)
      = (Raised SerialException, interfere i m1)" by simp
  with reader_loop_append [OF pre]
  show "reader m (pre @ (i, ReadRaises SerialException) # evs)
        = (Raised SerialException,
           (interfere i m1)\<lparr>alive := Some False,
                             console := (console m1)\<lparr>cancels := Suc (cancels (console m1))\<rparr>\<rparr>)"
    by (simp add: reader_def Console_cancel_def)
next
  assume a: "receiver_thread s = ReaderRead \<and> channel_input s = ReadRaises SerialException # rs"
  then show st: "reader_step s
          = s\<lparr>channel_input := rs,
              shared := (shared s)\<lparr>alive := Some False,
                 console := (console (shared s))\<lparr>cancels := Suc (cancels (console (shared s)))\<rparr>\<rparr>,
              console_input := console_input s @ [Key (cancel_key (os_name s))],
              receiver_thread := ReaderEnded (Raised SerialException)\<rparr>"
    by (simp add: reader_step_def reader_raise_def Console_cancel_def)
  fix sched
  assume tx: "Tx \<in> set sched"
  have r: "receiver_thread (reader_step s) = ReaderEnded (Raised SerialException)"
    and al: "alive (shared (reader_step s)) = Some False"
    and q: "transmitter_thread (reader_step s) = WriterGetkey \<longrightarrow> console_input (reader_step s) \<noteq> []"
    and ser: "serial (shared (reader_step s)) = serial (shared s)"
    by (simp_all add: st)
  from run_after_fault [OF r al q tx]
  have fin: "receiver_thread (run sched (reader_step s)) = ReaderEnded (Raised SerialException)"
    "\<exists>out. transmitter_thread (run sched (reader_step s)) = WriterEnded out"
    "serial (shared (run sched (reader_step s))) = serial (shared (reader_step s))"
    by simp_all
  then have "run_terminal_joins (run sched (reader_step s)) = Returned"
    by (auto simp: run_terminal_joins_def join_def)
  with fin ser
  show "receiver_thread (run sched (reader_step s)) = ReaderEnded (Raised SerialException)"
    "\<exists>out. transmitter_thread (run sched (reader_step s)) = WriterEnded out"
    "serial (shared (run sched (reader_step s))) = serial (shared s)"
    "run_terminal_joins (run sched (reader_step s)) = Returned"
    by simp_all
qed


theorem reader_transport_fault_witness:
  "reader_loop terminal [(Quiet, Data [0x41])]
     = (Blocked, terminal\<lparr>console := \<lparr>console_output = [Text [0x41]], cancels = 0\<rparr>\<rparr>)
   \<and> reader terminal [(Quiet, Data [0x41]), (Quiet, ReadRaises SerialException), (Quiet, Data [0x42])]
     = (Raised SerialException,
        terminal\<lparr>alive := Some False,
                  console := \<lparr>console_output = [Text [0x41]], cancels = 1\<rparr>\<rparr>)
   \<and> run [Tx, Rx] (start_threads Posix terminal [ReadRaises SerialException] [])
     = \<lparr>os_name = Posix, shared = terminal, receiver_thread = ReaderRead,
        transmitter_thread = WriterGetkey, writer_menu_active = False,
        channel_input = [ReadRaises SerialException], console_input = []\<rparr>
   \<and> run [Tx, Rx, Rx] (start_threads Posix terminal [ReadRaises SerialException] [])
     = \<lparr>os_name = Posix,
        shared = terminal\<lparr>alive := Some False,
                          console := \<lparr>console_output = [], cancels = 1\<rparr>\<rparr>,
        receiver_thread = ReaderEnded (Raised SerialException),
        transmitter_thread = WriterGetkey, writer_menu_active = False,
        channel_input = [], console_input = [Key [0x00]]\<rparr>
   \<and> run [Tx, Rx, Rx, Tx] (start_threads Posix terminal [ReadRaises SerialException] [])
     = \<lparr>os_name = Posix,
        shared = terminal\<lparr>alive := Some False,
                          console := \<lparr>console_output = [], cancels = 1\<rparr>\<rparr>,
        receiver_thread = ReaderEnded (Raised SerialException),
        transmitter_thread = WriterEnded Returned, writer_menu_active = False,
        channel_input = [], console_input = []\<rparr>
   \<and> run_terminal_joins (run [Tx, Rx, Rx, Tx]
        (start_threads Posix terminal [ReadRaises SerialException] [])) = Returned"
  using reader_transport_fault
    [of terminal "[(Quiet, Data [0x41])]"
        "terminal\<lparr>console := \<lparr>console_output = [Text [0x41]], cancels = 0\<rparr>\<rparr>"
        Quiet "[(Quiet, Data [0x42])]"
        "\<lparr>os_name = Posix, shared = terminal, receiver_thread = ReaderRead,
          transmitter_thread = WriterGetkey, writer_menu_active = False,
          channel_input = [ReadRaises SerialException], console_input = []\<rparr>" "[]"]
  by (simp add: thread_defs terminal_eq reader_def reader_data_def decode_def utf_8_def
      utf_8_decode_def utf8_decode_step_def decode_errors_def Console_write_def str_replace_def)

section \<open>The incremental decoder\<close>

lemma utf8_decode_step_append:
  "utf8_decode_step b bs = Emit item k \<Longrightarrow>
     utf8_decode_step b (bs @ ys) = Emit item k \<and> k \<le> length bs"
  unfolding utf8_decode_step_def
  by (auto split: if_splits list.splits)

lemma utf8_scan_append:
  "utf8_scan (xs @ ys) =
     (case utf8_scan xs of (items, rest) \<Rightarrow>
        (case utf8_scan (rest @ ys) of (items', rest') \<Rightarrow> (items @ items', rest')))"
proof (induction xs rule: utf8_scan.induct)
  case 1
  show ?case by (simp split: prod.splits)
next
  case (2 b bs)
  show ?case
  proof (cases "utf8_decode_step b bs")
    case Incomplete
    then show ?thesis by (simp split: prod.splits)
  next
    case (Emit item k)
    from utf8_decode_step_append [OF Emit, of ys]
    have st: "utf8_decode_step b (bs @ ys) = Emit item k" and k: "k \<le> length bs" by simp_all
    from k have dr: "drop k (bs @ ys) = drop k bs @ ys" by simp
    show ?thesis
      using "2.IH" [OF Emit] Emit st dr by (simp split: prod.splits)
  qed
qed

lemma utf8_scan_rest:
  "utf8_scan xs = (items, rest) \<Longrightarrow> drop (length xs - length rest) xs = rest"
proof (induction xs arbitrary: items rest rule: utf8_scan.induct)
  case 1
  then show ?case by simp
next
  case (2 b bs)
  show ?case
  proof (cases "utf8_decode_step b bs")
    case Incomplete
    with "2.prems" show ?thesis by auto
  next
    case (Emit item k)
    obtain its r where sc: "utf8_scan (drop k bs) = (its, r)"
      by (cases "utf8_scan (drop k bs)")
    with "2.prems" Emit have r: "rest = r" by simp
    from "2.IH" [OF Emit sc] have d: "drop (length (drop k bs) - length r) (drop k bs) = r" .
    from utf8_decode_step_append [OF Emit, of "[]"] have k: "k \<le> length bs" by simp
    from d have len: "length r \<le> length bs - k"
      by (metis diff_le_self length_drop diff_diff_cancel le_refl)
    have "Suc (length bs) - length r = Suc (k + (length bs - k - length r))"
      using k len by simp
    with d r show ?thesis by (simp add: add.commute)
  qed
qed


lemma decode_utf_8_Replace:
  assumes "dec_codec d = utf_8" and "dec_errors d = Replace"
    and "utf8_scan (buffer d @ input) = (items, rest)"
  shows "decode d input =
           Inr (map (\<lambda>i. case i of None \<Rightarrow> 0xFFFD | Some c \<Rightarrow> c) items, d\<lparr>buffer := rest\<rparr>)"
  using assms utf8_scan_rest [OF assms(3)]
  by (simp add: decode_def utf_8_def utf_8_decode_def decode_errors_def)

lemma decode_chunks:
  assumes c: "dec_codec d = utf_8" and e: "dec_errors d = Replace"
  shows "\<exists>t1 d1 t2 d2. decode d xs = Inr (t1, d1) \<and> decode d1 ys = Inr (t2, d2)
           \<and> decode d (xs @ ys) = Inr (t1 @ t2, d2)"
proof -
  obtain it1 r1 where s1: "utf8_scan (buffer d @ xs) = (it1, r1)"
    by (cases "utf8_scan (buffer d @ xs)")
  obtain it2 r2 where s2: "utf8_scan (r1 @ ys) = (it2, r2)"
    by (cases "utf8_scan (r1 @ ys)")
  let ?f = "\<lambda>i. case i of None \<Rightarrow> 0xFFFD | Some c \<Rightarrow> (c::nat)"
  have d1: "decode d xs = Inr (map ?f it1, d\<lparr>buffer := r1\<rparr>)"
    using decode_utf_8_Replace [OF c e s1] .
  have d2: "decode (d\<lparr>buffer := r1\<rparr>) ys = Inr (map ?f it2, d\<lparr>buffer := r2\<rparr>)"
    using decode_utf_8_Replace [of "d\<lparr>buffer := r1\<rparr>" ys it2 r2] c e s2 by simp
  have "utf8_scan (buffer d @ xs @ ys) = (it1 @ it2, r2)"
    using utf8_scan_append [of "buffer d @ xs" ys] s1 s2 by simp
  then have d3: "decode d (xs @ ys) = Inr (map ?f (it1 @ it2), d\<lparr>buffer := r2\<rparr>)"
    using decode_utf_8_Replace [OF c e] by simp
  from d1 d2 d3 show ?thesis by simp
qed

lemma decode_never_raises:
  assumes "dec_codec d = utf_8" and "dec_errors d = Replace"
  shows "\<exists>t d'. decode d input = Inr (t, d') \<and> dec_codec d' = utf_8 \<and> dec_errors d' = Replace"
proof -
  obtain items rest where "utf8_scan (buffer d @ input) = (items, rest)"
    by (cases "utf8_scan (buffer d @ input)")
  from decode_utf_8_Replace [OF assms this] assms show ?thesis by simp
qed

lemma reader_data_utf_8_Replace:
  assumes "rx_decoder m = Some d" and "dec_codec d = utf_8" and "dec_errors d = Replace"
  shows "\<exists>m' d'. reader_data m data = (None, m') \<and> rx_decoder m' = Some d'
           \<and> dec_codec d' = utf_8 \<and> dec_errors d' = Replace"
proof (cases "raw m")
  case True
  with assms show ?thesis by (simp add: reader_data_def)
next
  case False
  from decode_never_raises [OF assms(2,3), of data]
  obtain t d' where "decode d data = Inr (t, d')" "dec_codec d' = utf_8" "dec_errors d' = Replace"
    by blast
  with False assms(1) show ?thesis
    by (simp add: reader_data_def split: prod.splits)
qed

lemma reader_loop_never_raises:
  assumes "rx_decoder m = Some d" and "dec_codec d = utf_8" and "dec_errors d = Replace"
    and "\<forall>ev\<in>set evs. \<exists>i data. ev = (i, Data data)"
  shows "fst (reader_loop m evs) \<noteq> Raised e"
  using assms
proof (induction evs arbitrary: m d)
  case Nil
  then show ?case by simp
next
  case (Cons ev evs)
  then obtain i data where ev: "ev = (i, Data data)" by auto
  from Cons.prems have rest: "\<forall>ev\<in>set evs. \<exists>i data. ev = (i, Data data)" by simp
  have dec: "rx_decoder (interfere i m) = Some d" using Cons.prems(1) by simp
  from reader_data_utf_8_Replace [OF dec Cons.prems(2,3), of data]
  obtain m' d' where rd: "reader_data (interfere i m) data = (None, m')"
    and m': "rx_decoder m' = Some d'" "dec_codec d' = utf_8" "dec_errors d' = Replace" by blast
  show ?case
    using Cons.IH [OF m' rest] Cons.IH [OF dec Cons.prems(2,3) rest] rd
    by (simp add: ev)
qed

text \<open>
  C6. \<open>set_rx_encoding\<close> with UTF-8 and the default error policy installs a decoder
  with an empty buffer. In any state of that decoder, feeding a byte string in two
  chunks, split anywhere, decodes to two texts whose concatenation is the text that
  feeding it whole decodes to, and leaves the same state. Decoding never raises: each
  malformed sequence becomes U+FFFD. So a reader loop whose reads all return data
  raises nothing, whatever the bytes.
\<close>

theorem rx_decoder_incremental:
  assumes reg: "registry ''UTF-8'' = Some utf_8"
  shows "\<exists>d. set_rx_encoding registry m ''UTF-8'' default_errors
                = (None, m\<lparr>input_encoding := ''UTF-8'', rx_decoder := Some d\<rparr>)
           \<and> buffer d = []
           \<and> (\<forall>buf xs ys. \<exists>t1 d1 t2 d2.
                 decode (d\<lparr>buffer := buf\<rparr>) xs = Inr (t1, d1) \<and> decode d1 ys = Inr (t2, d2)
                 \<and> decode (d\<lparr>buffer := buf\<rparr>) (xs @ ys) = Inr (t1 @ t2, d2))
           \<and> (\<forall>buf data. \<exists>items rest.
                 utf8_scan (buf @ data) = (items, rest)
                 \<and> decode (d\<lparr>buffer := buf\<rparr>) data
                     = Inr (map (\<lambda>i. case i of None \<Rightarrow> 0xFFFD | Some c \<Rightarrow> c) items,
                            d\<lparr>buffer := rest\<rparr>))
           \<and> (\<forall>evs e. (\<forall>ev\<in>set evs. \<exists>i data. ev = (i, Data data)) \<longrightarrow>
                 fst (reader (m\<lparr>input_encoding := ''UTF-8'', rx_decoder := Some d\<rparr>) evs)
                   \<noteq> Raised e)"
proof -
  let ?d = "\<lparr>dec_codec = utf_8, dec_errors = Replace, buffer = []\<rparr>"
  let ?m = "m\<lparr>input_encoding := ''UTF-8'', rx_decoder := Some ?d\<rparr>"
  have set: "set_rx_encoding registry m ''UTF-8'' default_errors = (None, ?m)"
    using reg
    by (simp add: set_rx_encoding_def getincrementaldecoder_def default_errors_def)
  have chunks: "\<exists>t1 d1 t2 d2.
      decode (?d\<lparr>buffer := buf\<rparr>) xs = Inr (t1, d1) \<and> decode d1 ys = Inr (t2, d2)
      \<and> decode (?d\<lparr>buffer := buf\<rparr>) (xs @ ys) = Inr (t1 @ t2, d2)" for buf xs ys
    using decode_chunks [of "?d\<lparr>buffer := buf\<rparr>" xs ys] by simp
  have repl: "\<exists>items rest. utf8_scan (buf @ data) = (items, rest)
      \<and> decode (?d\<lparr>buffer := buf\<rparr>) data
          = Inr (map (\<lambda>i. case i of None \<Rightarrow> 0xFFFD | Some c \<Rightarrow> c) items,
                 ?d\<lparr>buffer := rest\<rparr>)" for buf data
  proof -
    obtain items rest where sc: "utf8_scan (buf @ data) = (items, rest)"
      by (cases "utf8_scan (buf @ data)")
    with decode_utf_8_Replace [of "?d\<lparr>buffer := buf\<rparr>" data items rest]
    show ?thesis by simp
  qed
  have quiet: "fst (reader ?m evs) \<noteq> Raised e"
    if "\<forall>ev\<in>set evs. \<exists>i data. ev = (i, Data data)" for evs e
  proof -
    have "fst (reader_loop ?m evs) \<noteq> Raised x" for x
      using reader_loop_never_raises [of ?m ?d evs x] that by simp
    then show ?thesis
      by (cases "reader_loop ?m evs"; cases "fst (reader_loop ?m evs)")
         (auto simp: reader_def split: exn.splits)
  qed
  show ?thesis
    using set chunks repl quiet
    by (intro exI [of _ ?d] conjI allI impI) (simp_all del: set_simps)
qed

lemma utf8_scan_euro_head: "utf8_scan [0xE2, 0x82] = ([], [0xE2, 0x82])"
  by (simp add: utf8_decode_step_def is_continuation_def)

lemma utf8_scan_euro: "utf8_scan [0xE2, 0x82, 0xAC] = ([Some 0x20AC], [])"
  by (simp add: utf8_decode_step_def is_continuation_def cp3_def)

lemma utf8_scan_invalid: "utf8_scan [0xFF, 0x41] = ([None, Some 0x41], [])"
  by (simp add: utf8_decode_step_def)

theorem rx_decoder_incremental_witness:
  "set_rx_encoding utf8_registry (terminal\<lparr>rx_decoder := None\<rparr>) ''UTF-8'' default_errors
     = (None, terminal)
   \<and> decode \<lparr>dec_codec = utf_8, dec_errors = Replace, buffer = []\<rparr> [0xE2, 0x82]
       = Inr ([], \<lparr>dec_codec = utf_8, dec_errors = Replace, buffer = [0xE2, 0x82]\<rparr>)
   \<and> decode \<lparr>dec_codec = utf_8, dec_errors = Replace, buffer = [0xE2, 0x82]\<rparr> [0xAC]
       = Inr ([0x20AC], \<lparr>dec_codec = utf_8, dec_errors = Replace, buffer = []\<rparr>)
   \<and> decode \<lparr>dec_codec = utf_8, dec_errors = Replace, buffer = []\<rparr> [0xE2, 0x82, 0xAC]
       = Inr ([0x20AC], \<lparr>dec_codec = utf_8, dec_errors = Replace, buffer = []\<rparr>)
   \<and> decode \<lparr>dec_codec = utf_8, dec_errors = Replace, buffer = []\<rparr> [0xFF, 0x41]
       = Inr ([0xFFFD, 0x41], \<lparr>dec_codec = utf_8, dec_errors = Replace, buffer = []\<rparr>)
   \<and> reader terminal [(Quiet, Data [0xE2, 0x82]), (Quiet, Data [0xAC]), (Quiet, Data [0xFF, 0x41])]
       = (Blocked, terminal\<lparr>console :=
            \<lparr>console_output = [Text [], Text [0x20AC], Text [0xFFFD, 0x41]], cancels = 0\<rparr>\<rparr>)"
  using rx_decoder_incremental [of utf8_registry "terminal\<lparr>rx_decoder := None\<rparr>"]
    utf8_scan_euro_head utf8_scan_euro utf8_scan_invalid
  by (simp add: terminal_eq utf8_registry_def set_rx_encoding_def getincrementaldecoder_def
      default_errors_def reader_def reader_data_def decode_def utf_8_def utf_8_decode_def
      decode_errors_def Console_write_def str_replace_def)

end
